theory Spec2Isabelle
  imports Main "HOL-Library.Sublist" "HOL-Library.AList"
begin

section \<open>The workspace file gateway: strings, paths and the file system\<close>

text \<open>
  The development embeds \<^verbatim>\<open>handleWorkspaceHttpRequest\<close> (the gateway's workspace HTTP
  handler). A JavaScript path or header string is a \<^typ>\<open>string\<close>: the list of the bytes of
  its UTF-8 encoding; a \<^verbatim>\<open>Buffer\<close>, and a string decoded with the \<^verbatim>\<open>binary\<close> (Latin-1)
  encoding, is the list of its bytes.
\<close>

subsection \<open>String primitives of the JavaScript library\<close>

definition CR :: char where "CR = CHR 0x0D"
definition LF :: char where "LF = CHR 0x0A"
definition CRLF :: string where "CRLF = [CHR 0x0D, CHR 0x0A]"

text \<open>The double quote, as a string.\<close>

definition DQ :: string where "DQ = [CHR 0x22]"

text \<open>\<^verbatim>\<open>s.startsWith(p)\<close>.\<close>

definition startsWith :: "string \<Rightarrow> string \<Rightarrow> bool" where
  "startsWith s p = prefix p s"

text \<open>\<^verbatim>\<open>s.indexOf(sub)\<close>: the first index at which \<open>sub\<close> occurs, \<open>None\<close> for the \<open>-1\<close> of
  JavaScript.\<close>

fun indexOf :: "string \<Rightarrow> string \<Rightarrow> nat option" where
  "indexOf [] sub = (if sub = [] then Some 0 else None)"
| "indexOf (c # cs) sub =
     (if prefix sub (c # cs) then Some 0 else map_option Suc (indexOf cs sub))"

text \<open>\<^verbatim>\<open>s.lastIndexOf(sub)\<close>: the last index at which \<open>sub\<close> occurs.\<close>

fun lastIndexOf :: "string \<Rightarrow> string \<Rightarrow> nat option" where
  "lastIndexOf [] sub = (if sub = [] then Some 0 else None)"
| "lastIndexOf (c # cs) sub =
     (case lastIndexOf cs sub of
        Some i \<Rightarrow> Some (Suc i)
      | None \<Rightarrow> if prefix sub (c # cs) then Some 0 else None)"

text \<open>\<^verbatim>\<open>s.includes(sub)\<close>.\<close>

definition includes_str :: "string \<Rightarrow> string \<Rightarrow> bool" where
  "includes_str s sub = (indexOf s sub \<noteq> None)"

text \<open>The index a JavaScript search returns: \<open>-1\<close> when there is no occurrence.\<close>

definition js_index :: "nat option \<Rightarrow> int" where
  "js_index r = (case r of None \<Rightarrow> - 1 | Some i \<Rightarrow> int i)"

text \<open>\<^verbatim>\<open>s.slice(start, end)\<close>: a negative index counts from the end of the string, both
  indices are clamped to the string, and an empty range gives the empty string.\<close>

definition slice :: "string \<Rightarrow> int \<Rightarrow> int \<Rightarrow> string" where
  "slice s start end =
     (let len = int (length s);
          from = (if start < 0 then max (len + start) 0 else min start len);
          to = (if end < 0 then max (len + end) 0 else min end len)
      in take (nat (to - from)) (drop (nat from) s))"

text \<open>\<^verbatim>\<open>s.split(sep)\<close> for a non-empty separator \<open>sep\<close>: the pieces between the successive
  occurrences of \<open>sep\<close>, found from left to right without overlap. The first argument
  counts the characters of a found separator that are still to be skipped; \<open>acc\<close> is the
  current piece, reversed. (The handler only splits at non-empty separators.)\<close>

fun split_go :: "string \<Rightarrow> nat \<Rightarrow> string \<Rightarrow> string \<Rightarrow> string list" where
  "split_go sep k acc [] = [rev acc]"
| "split_go sep (Suc k) acc (c # cs) = split_go sep k acc cs"
| "split_go sep 0 acc (c # cs) =
     (if prefix sep (c # cs) then rev acc # split_go sep (length sep - 1) [] cs
      else split_go sep 0 (c # acc) cs)"

definition split_str :: "string \<Rightarrow> string \<Rightarrow> string list" where
  "split_str s sep = split_go sep 0 [] s"

subsection \<open>Node's \<^verbatim>\<open>path.join\<close> (POSIX)\<close>

text \<open>
  \<^verbatim>\<open>path.join\<close> and \<^verbatim>\<open>path.normalize\<close> belong to the Node.js platform, not to the
  repository; they are modelled after the platform's POSIX implementation, segment by
  segment: \<^verbatim>\<open>normalizeString\<close> walks the segments between the slashes, drops empty and
  \<^verbatim>\<open>.\<close> segments, and lets a \<^verbatim>\<open>..\<close> segment remove the segment before it; above the
  start of a relative path the \<^verbatim>\<open>..\<close> is kept, above the root of an absolute path it is
  dropped.
\<close>

fun segments_of :: "string \<Rightarrow> string list" where
  "segments_of [] = [[]]"
| "segments_of (c # cs) =
     (if c = CHR ''/'' then [] # segments_of cs
      else (case segments_of cs of
              s # ss \<Rightarrow> (c # s) # ss
            | [] \<Rightarrow> [[c]]))"

fun join_segs :: "string list \<Rightarrow> string" where
  "join_segs [] = []"
| "join_segs [s] = s"
| "join_segs (s # t # ss) = s @ ''/'' @ join_segs (t # ss)"

text \<open>\<open>res\<close> is the stack of the segments kept so far, the last one first.\<close>

fun normalize_segments :: "bool \<Rightarrow> string list \<Rightarrow> string list \<Rightarrow> string list" where
  "normalize_segments allowAboveRoot res [] = rev res"
| "normalize_segments allowAboveRoot res (s # ss) =
     (if s = [] \<or> s = ''.'' then normalize_segments allowAboveRoot res ss
      else if s = ''..'' then
        (case res of
           [] \<Rightarrow>
             if allowAboveRoot then normalize_segments allowAboveRoot [''..''] ss
             else normalize_segments allowAboveRoot [] ss
         | t # res' \<Rightarrow>
             if t = ''..'' then
               (if allowAboveRoot then normalize_segments allowAboveRoot (''..'' # res) ss
                else normalize_segments allowAboveRoot res ss)
             else normalize_segments allowAboveRoot res' ss)
      else normalize_segments allowAboveRoot (s # res) ss)"

definition normalizeString :: "string \<Rightarrow> bool \<Rightarrow> string" where
  "normalizeString path allowAboveRoot =
     join_segs (normalize_segments allowAboveRoot [] (segments_of path))"

definition normalize :: "string \<Rightarrow> string" where
  "normalize path =
     (if path = [] then ''.''
      else
        let isAbsolute = (hd path = CHR ''/'');
            trailingSeparator = (last path = CHR ''/'');
            p = normalizeString path (\<not> isAbsolute)
        in if p = [] then
             (if isAbsolute then ''/'' else if trailingSeparator then ''./'' else ''.'')
           else (if isAbsolute then ''/'' else []) @ p
                  @ (if trailingSeparator then ''/'' else []))"

text \<open>\<^verbatim>\<open>path.join(a, b)\<close>: the non-empty arguments joined by a slash, then normalized.\<close>

definition path_join :: "string \<Rightarrow> string \<Rightarrow> string" where
  "path_join a b =
     (if a = [] \<and> b = [] then ''.''
      else if a = [] then normalize b
      else if b = [] then normalize a
      else normalize (a @ ''/'' @ b))"

subsection \<open>The file system\<close>

text \<open>
  The file system is a tree: a file holds its bytes, a directory the list of its entries
  in the order \<^verbatim>\<open>readdir\<close> reports them. The value of type \<open>node\<close> that the operations
  take is the root directory \<^verbatim>\<open>/\<close>; a relative path is resolved from it (the working
  directory of the process is taken to be the root), and there are neither symbolic links
  nor permissions. A failing call returns the exception it throws.

  Some paths fail before the tree is looked at: Node rejects a path that holds a NUL byte,
  and the kernel rejects a path of \<open>PATH_MAX\<close> bytes or more and a path with a name of more
  than \<open>NAME_MAX\<close> bytes.
\<close>

datatype node = File string | Dir "(string \<times> node) list"

datatype exn =
    ENOENT | ENOTDIR | EISDIR | EEXIST | EBUSY | EPERM | ENAMETOOLONG
  | ERR_INVALID_ARG_VALUE | ERR_INVALID_CHAR | URIError

fun lookup :: "node \<Rightarrow> string list \<Rightarrow> node option" where
  "lookup n [] = Some n"
| "lookup (File c) (s # ss) = None"
| "lookup (Dir es) (s # ss) =
     (case map_of es s of None \<Rightarrow> None | Some n \<Rightarrow> lookup n ss)"

fun tree_write :: "node \<Rightarrow> string list \<Rightarrow> string \<Rightarrow> exn + node" where
  "tree_write (File c) [] data = Inr (File data)"
| "tree_write (Dir es) [] data = Inl EISDIR"
| "tree_write (File c) (s # ss) data = Inl ENOTDIR"
| "tree_write (Dir es) (s # ss) data =
     (case map_of es s of
        None \<Rightarrow>
          if ss = [] then Inr (Dir (AList.update s (File data) es)) else Inl ENOENT
      | Some n \<Rightarrow>
          (case tree_write n ss data of
             Inl e \<Rightarrow> Inl e
           | Inr n' \<Rightarrow> Inr (Dir (AList.update s n' es))))"

fun tree_remove :: "node \<Rightarrow> string list \<Rightarrow> exn + node" where
  "tree_remove n [] = Inl EBUSY"
| "tree_remove (File c) (s # ss) = Inl ENOTDIR"
| "tree_remove (Dir es) (s # ss) =
     (case map_of es s of
        None \<Rightarrow> Inl ENOENT
      | Some n \<Rightarrow>
          if ss = [] then Inr (Dir (AList.delete s es))
          else (case tree_remove n ss of
                  Inl e \<Rightarrow> Inl e
                | Inr n' \<Rightarrow> Inr (Dir (AList.update s n' es))))"

fun tree_mkdirs :: "node \<Rightarrow> string list \<Rightarrow> exn + node" where
  "tree_mkdirs (Dir es) [] = Inr (Dir es)"
| "tree_mkdirs (File c) [] = Inl EEXIST"
| "tree_mkdirs (File c) (s # ss) = Inl ENOTDIR"
| "tree_mkdirs (Dir es) (s # ss) =
     (case tree_mkdirs (case map_of es s of None \<Rightarrow> Dir [] | Some n \<Rightarrow> n) ss of
        Inl e \<Rightarrow> Inl e
      | Inr n' \<Rightarrow> Inr (Dir (AList.update s n' es)))"

text \<open>The segments the kernel walks for a path: empty and \<^verbatim>\<open>.\<close> segments stay where they
  are, \<^verbatim>\<open>..\<close> goes up (and stays at the root).\<close>

definition fs_path :: "string \<Rightarrow> string list" where
  "fs_path p = normalize_segments False [] (segments_of p)"

definition NAME_MAX :: nat where "NAME_MAX = 255"
definition PATH_MAX :: nat where "PATH_MAX = 4096"

definition path_error :: "string \<Rightarrow> exn option" where
  "path_error p =
     (if CHR 0x00 \<in> set p then Some ERR_INVALID_ARG_VALUE
      else if PATH_MAX \<le> length p then Some ENAMETOOLONG
      else if list_ex (\<lambda>s. NAME_MAX < length s) (segments_of p) then Some ENAMETOOLONG
      else None)"

text \<open>What a path names: nothing for a path that is rejected, nothing for the empty path,
  and nothing for a file named with a trailing slash.\<close>

definition fs_node :: "node \<Rightarrow> string \<Rightarrow> node option" where
  "fs_node fs p =
     (if path_error p \<noteq> None then None
      else if p = [] then None
      else (case lookup fs (fs_path p) of
              Some (File c) \<Rightarrow> if last p = CHR ''/'' then None else Some (File c)
            | r \<Rightarrow> r))"

definition existsSync :: "node \<Rightarrow> string \<Rightarrow> bool" where
  "existsSync fs p = (fs_node fs p \<noteq> None)"

definition statSync :: "node \<Rightarrow> string \<Rightarrow> exn + node" where
  "statSync fs p =
     (case path_error p of
        Some e \<Rightarrow> Inl e
      | None \<Rightarrow> (case fs_node fs p of None \<Rightarrow> Inl ENOENT | Some n \<Rightarrow> Inr n))"

fun isDirectory :: "node \<Rightarrow> bool" where
  "isDirectory (Dir es) = True"
| "isDirectory (File c) = False"

definition readdirSync :: "node \<Rightarrow> string \<Rightarrow> exn + string list" where
  "readdirSync fs p =
     (case path_error p of
        Some e \<Rightarrow> Inl e
      | None \<Rightarrow>
          (case fs_node fs p of
             None \<Rightarrow> Inl ENOENT
           | Some (File c) \<Rightarrow> Inl ENOTDIR
           | Some (Dir es) \<Rightarrow> Inr (map fst es)))"

definition readFileSync :: "node \<Rightarrow> string \<Rightarrow> exn + string" where
  "readFileSync fs p =
     (case path_error p of
        Some e \<Rightarrow> Inl e
      | None \<Rightarrow>
          (case fs_node fs p of
             None \<Rightarrow> Inl ENOENT
           | Some (Dir es) \<Rightarrow> Inl EISDIR
           | Some (File c) \<Rightarrow> Inr c))"

text \<open>\<^verbatim>\<open>fs.writeFileSync(p, data)\<close>: creates the file or replaces its whole content; it
  creates no directory, and fails on a rejected path, on a directory and on a path with a
  trailing slash.\<close>

definition writeFileSync :: "node \<Rightarrow> string \<Rightarrow> string \<Rightarrow> exn + node" where
  "writeFileSync fs p data =
     (case path_error p of
        Some e \<Rightarrow> Inl e
      | None \<Rightarrow>
          if p = [] then Inl ENOENT
          else if last p = CHR ''/'' then
            (case lookup fs (fs_path p) of
               Some (File c) \<Rightarrow> Inl ENOTDIR
             | Some (Dir es) \<Rightarrow> Inl EISDIR
             | None \<Rightarrow> (case tree_write fs (fs_path p) data of
                          Inl e \<Rightarrow> Inl e
                        | Inr fs' \<Rightarrow> Inl EISDIR))
          else tree_write fs (fs_path p) data)"

definition unlinkSync :: "node \<Rightarrow> string \<Rightarrow> exn + node" where
  "unlinkSync fs p =
     (case path_error p of
        Some e \<Rightarrow> Inl e
      | None \<Rightarrow>
          (case fs_node fs p of
             None \<Rightarrow> Inl ENOENT
           | Some (Dir es) \<Rightarrow> Inl EPERM
           | Some (File c) \<Rightarrow> tree_remove fs (fs_path p)))"

text \<open>\<^verbatim>\<open>fs.rmSync(p, { recursive: true })\<close>.\<close>

definition rmSync_recursive :: "node \<Rightarrow> string \<Rightarrow> exn + node" where
  "rmSync_recursive fs p =
     (case path_error p of
        Some e \<Rightarrow> Inl e
      | None \<Rightarrow>
          (case fs_node fs p of
             None \<Rightarrow> Inl ENOENT
           | Some n \<Rightarrow> tree_remove fs (fs_path p)))"

text \<open>\<^verbatim>\<open>fs.mkdirSync(p, { recursive: true })\<close>.\<close>

definition mkdirSync_recursive :: "node \<Rightarrow> string \<Rightarrow> exn + node" where
  "mkdirSync_recursive fs p =
     (case path_error p of
        Some e \<Rightarrow> Inl e
      | None \<Rightarrow> if p = [] then Inl ENOENT else tree_mkdirs fs (fs_path p))"

text \<open>\<^verbatim>\<open>fs.createReadStream(p)\<close>, read to its end: the bytes of a file; on a directory the
  stream emits an \<^verbatim>\<open>error\<close> event.\<close>

definition createReadStream :: "node \<Rightarrow> string \<Rightarrow> exn + string" where
  "createReadStream fs p = readFileSync fs p"

subsection \<open>Text encodings\<close>

text \<open>
  A decoded JavaScript string is the list of its code points; code points and byte values
  are integers. \<^verbatim>\<open>buf.toString()\<close> decodes
  UTF-8 and never fails: every maximal ill-formed part of the input becomes U+FFFD
  (65533). The arguments of \<open>utf8_decode_go\<close> are the decoder's state: the continuation
  bytes still needed, the code point collected so far, and the range allowed for the next
  continuation byte.
\<close>

fun utf8_decode_go :: "nat \<Rightarrow> int \<Rightarrow> int \<Rightarrow> int \<Rightarrow> int list \<Rightarrow> int list" where
  "utf8_decode_go needed cp lower upper [] = (if needed = 0 then [] else [65533])"
| "utf8_decode_go needed cp lower upper (b # bs) =
     (if needed = 0 then
        (if b \<le> 127 then b # utf8_decode_go 0 0 128 191 bs
         else if 194 \<le> b \<and> b \<le> 223 then utf8_decode_go 1 (b mod 32) 128 191 bs
         else if 224 \<le> b \<and> b \<le> 239 then
           utf8_decode_go 2 (b mod 16) (if b = 224 then 160 else 128)
             (if b = 237 then 159 else 191) bs
         else if 240 \<le> b \<and> b \<le> 244 then
           utf8_decode_go 3 (b mod 8) (if b = 240 then 144 else 128)
             (if b = 244 then 143 else 191) bs
         else 65533 # utf8_decode_go 0 0 128 191 bs)
      else if b < lower \<or> upper < b then 65533 # utf8_decode_go 0 0 128 191 (b # bs)
      else if needed = 1 then (cp * 64 + b mod 64) # utf8_decode_go 0 0 128 191 bs
      else utf8_decode_go (needed - 1) (cp * 64 + b mod 64) 128 191 bs)"

definition utf8_decode :: "string \<Rightarrow> int list" where
  "utf8_decode bytes = utf8_decode_go 0 0 128 191 (map of_char bytes)"

definition utf8_encode_cp :: "int \<Rightarrow> int list" where
  "utf8_encode_cp cp =
     (if cp < 128 then [cp]
      else if cp < 2048 then [192 + cp div 64, 128 + cp mod 64]
      else if cp < 65536 then
        [224 + cp div 4096, 128 + (cp div 64) mod 64, 128 + cp mod 64]
      else [240 + cp div 262144, 128 + (cp div 4096) mod 64,
            128 + (cp div 64) mod 64, 128 + cp mod 64])"

definition utf8_encode :: "int list \<Rightarrow> string" where
  "utf8_encode cps = map char_of (concat (map utf8_encode_cp cps))"

text \<open>The path the file system receives for a string that was decoded as Latin-1: every
  byte is one character, written to the system call in UTF-8.\<close>

definition latin1_to_utf8 :: "string \<Rightarrow> string" where
  "latin1_to_utf8 s = utf8_encode (map of_char s)"

text \<open>\<^verbatim>\<open>decodeURIComponent\<close>: every escape \<^verbatim>\<open>%XX\<close> becomes the byte \<open>XX\<close>; the bytes of a
  character outside ASCII must come from consecutive escapes and be well-formed UTF-8.
  \<open>None\<close> is the \<^verbatim>\<open>URIError\<close> it throws otherwise.\<close>

definition hex_val :: "char \<Rightarrow> int option" where
  "hex_val c =
     (let n = (of_char c :: int) in
      if 48 \<le> n \<and> n \<le> 57 then Some (n - 48)
      else if 65 \<le> n \<and> n \<le> 70 then Some (n - 55)
      else if 97 \<le> n \<and> n \<le> 102 then Some (n - 87)
      else None)"

datatype uri_token = Lit char | Esc int

fun uri_tokens :: "string \<Rightarrow> uri_token list option" where
  "uri_tokens [] = Some []"
| "uri_tokens (c # cs) =
     (if c = CHR ''%'' then
        (case cs of
           h1 # h2 # rest \<Rightarrow>
             (case (hex_val h1, hex_val h2) of
                (Some a, Some b) \<Rightarrow> map_option (Cons (Esc (16 * a + b))) (uri_tokens rest)
              | _ \<Rightarrow> None)
         | _ \<Rightarrow> None)
      else map_option (Cons (Lit c)) (uri_tokens cs))"

definition valid_utf8_char :: "int list \<Rightarrow> bool" where
  "valid_utf8_char octets =
     (case utf8_decode_go 0 0 128 191 octets of
        [cp] \<Rightarrow> utf8_encode_cp cp = octets
      | _ \<Rightarrow> False)"

text \<open>The number of leading one bits of a byte.\<close>

definition leading_ones :: "int \<Rightarrow> nat" where
  "leading_ones b =
     (if b < 128 then 0 else if b < 192 then 1 else if b < 224 then 2
      else if b < 240 then 3 else if b < 248 then 4 else 5)"

fun decode_tokens :: "nat \<Rightarrow> int list \<Rightarrow> uri_token list \<Rightarrow> string option" where
  "decode_tokens 0 octets [] = Some []"
| "decode_tokens (Suc k) octets [] = None"
| "decode_tokens 0 octets (Lit c # ts) = map_option (Cons c) (decode_tokens 0 [] ts)"
| "decode_tokens (Suc k) octets (Lit c # ts) = None"
| "decode_tokens 0 octets (Esc b # ts) =
     (if b < 128 then map_option (Cons (char_of b)) (decode_tokens 0 [] ts)
      else if leading_ones b = 1 \<or> 4 < leading_ones b then None
      else decode_tokens (leading_ones b - 1) [b] ts)"
| "decode_tokens (Suc k) octets (Esc b # ts) =
     (if k = 0 then
        (if valid_utf8_char (octets @ [b]) then
           map_option (append (map char_of (octets @ [b]))) (decode_tokens 0 [] ts)
         else None)
      else decode_tokens k (octets @ [b]) ts)"

definition decodeURIComponent :: "string \<Rightarrow> string option" where
  "decodeURIComponent s =
     (case uri_tokens s of None \<Rightarrow> None | Some ts \<Rightarrow> decode_tokens 0 [] ts)"

section \<open>The handler\<close>

subsection \<open>Requests and responses\<close>

text \<open>
  A request as the handler reads it: the method, \<^verbatim>\<open>url.pathname\<close>, the \<^verbatim>\<open>path\<close> query
  parameter (\<^verbatim>\<open>url.searchParams.get("path")\<close>), the \<^verbatim>\<open>content-type\<close> header and the
  buffers of the body's \<^verbatim>\<open>data\<close> events, in the order of their arrival.
\<close>

record request =
  req_method :: string
  pathname :: string
  query_path :: "string option"
  content_type :: "string option"
  chunks :: "string list"

text \<open>A file entry of the listing. Its \<^verbatim>\<open>mtime\<close>, and the size of a directory, are
  metadata that the tree does not record: the entry keeps the name, the kind and, for a
  file, its length.\<close>

record file_entry =
  fe_name :: string
  fe_size :: "nat option"
  fe_isDirectory :: bool

datatype json = JError string | JOk | JFiles "file_entry list"

text \<open>
  What the caller gets: \<open>NotHandled\<close> is the handler returning \<^verbatim>\<open>false\<close>;
  \<open>Unauthorized\<close> is \<^verbatim>\<open>sendUnauthorized\<close>; \<open>Json\<close> is \<^verbatim>\<open>sendJson\<close> and \<open>Text\<close> a
  text body, with the status; \<open>Stream\<close> is a piped file with the headers set before it;
  \<open>Uncaught\<close> is an exception that no \<^verbatim>\<open>catch\<close> of the handler receives, so that no
  response is written.
\<close>

datatype outcome =
    NotHandled
  | Unauthorized
  | Json nat json
  | Text nat string
  | Stream "(string \<times> string) list" string
  | Uncaught exn

subsection \<open>List files: \<^verbatim>\<open>GET /api/workspace\<close>\<close>

definition stat_size :: "node \<Rightarrow> nat option" where
  "stat_size n = (case n of File c \<Rightarrow> Some (length c) | Dir es \<Rightarrow> None)"

definition list_entry :: "node \<Rightarrow> string \<Rightarrow> string \<Rightarrow> exn + file_entry" where
  "list_entry fs workspaceDir name =
     (let fullPath = path_join workspaceDir name in
      case statSync fs fullPath of
        Inl e \<Rightarrow> Inl e
      | Inr stats \<Rightarrow>
          Inr \<lparr>fe_name = name, fe_size = stat_size stats,
               fe_isDirectory = isDirectory stats\<rparr>)"

text \<open>\<^verbatim>\<open>names.map(f)\<close> for a callback that may throw: the first exception ends the map.\<close>

fun map_throwing :: "('a \<Rightarrow> exn + 'b) \<Rightarrow> 'a list \<Rightarrow> exn + 'b list" where
  "map_throwing f [] = Inr []"
| "map_throwing f (x # xs) =
     (case f x of
        Inl e \<Rightarrow> Inl e
      | Inr y \<Rightarrow> (case map_throwing f xs of Inl e \<Rightarrow> Inl e | Inr ys \<Rightarrow> Inr (y # ys)))"

definition list_files :: "node \<Rightarrow> string \<Rightarrow> outcome" where
  "list_files fs workspaceDir =
     (case readdirSync fs workspaceDir of
        Inl e \<Rightarrow> Json 500 (JError ''Failed to list workspace'')
      | Inr names \<Rightarrow>
          (case map_throwing (list_entry fs workspaceDir) names of
             Inl e \<Rightarrow> Json 500 (JError ''Failed to list workspace'')
           | Inr files \<Rightarrow>
               Json 200 (JFiles (filter (\<lambda>f. \<not> startsWith (fe_name f) ''.'') files))))"

subsection \<open>Download: \<^verbatim>\<open>GET /api/workspace/:filename\<close>\<close>

text \<open>\<^verbatim>\<open>res.setHeader\<close> throws \<^verbatim>\<open>ERR_INVALID_CHAR\<close> for a value with a character other than
  the tab, the characters from U+0020 to U+007E and those from U+0080 to U+00FF.\<close>

definition valid_header_char :: "int \<Rightarrow> bool" where
  "valid_header_char cp = (cp = 9 \<or> (32 \<le> cp \<and> cp \<le> 126) \<or> (128 \<le> cp \<and> cp \<le> 255))"

definition valid_header_value :: "string \<Rightarrow> bool" where
  "valid_header_value v = list_all valid_header_char (utf8_decode v)"

definition download :: "node \<Rightarrow> string \<Rightarrow> string \<Rightarrow> outcome" where
  "download fs filePath fileName =
     (if \<not> existsSync fs filePath then Text 404 ''Not Found''
      else if \<not> valid_header_value (''attachment; filename='' @ DQ @ fileName @ DQ) then
        Uncaught ERR_INVALID_CHAR
      else (case createReadStream fs filePath of
              Inl e \<Rightarrow> Uncaught e
            | Inr bytes \<Rightarrow>
                Stream [(''Content-Disposition'',
                         ''attachment; filename='' @ DQ @ fileName @ DQ),
                        (''Content-Type'', ''application/octet-stream'')] bytes))"

subsection \<open>Delete: \<^verbatim>\<open>DELETE /api/workspace/:filename\<close>\<close>

definition delete_path :: "node \<Rightarrow> string \<Rightarrow> outcome \<times> node" where
  "delete_path fs filePath =
     (if existsSync fs filePath then
        (case statSync fs filePath of
           Inl e \<Rightarrow> (Json 500 (JError ''Failed to delete''), fs)
         | Inr stats \<Rightarrow>
             (case (if isDirectory stats then rmSync_recursive fs filePath
                    else unlinkSync fs filePath) of
                Inl e \<Rightarrow> (Json 500 (JError ''Failed to delete''), fs)
              | Inr fs' \<Rightarrow> (Json 200 JOk, fs')))
      else (Json 200 JOk, fs))"

subsection \<open>Read and write text: \<^verbatim>\<open>GET\<close> and \<^verbatim>\<open>PUT /api/workspace/text/:filename\<close>\<close>

text \<open>\<^verbatim>\<open>subPath.replace(/^text\//, "")\<close>.\<close>

definition strip_text :: "string \<Rightarrow> string" where
  "strip_text subPath = (if prefix ''text/'' subPath then drop 5 subPath else subPath)"

definition read_text :: "node \<Rightarrow> string \<Rightarrow> string \<Rightarrow> outcome" where
  "read_text fs workspaceDir subPath =
     (let actualFileName = strip_text subPath;
          actualFilePath = path_join workspaceDir actualFileName
      in if \<not> startsWith actualFilePath workspaceDir then Json 403 (JError ''Forbidden'')
         else if \<not> existsSync fs actualFilePath then Text 404 ''Not Found''
         else (case readFileSync fs actualFilePath of
                 Inl e \<Rightarrow> Json 500 (JError ''Failed to read text file'')
               | Inr bytes \<Rightarrow> Text 200 (utf8_encode (utf8_decode bytes))))"

text \<open>The body is the concatenation of the strings that the chunks decode to, one by one
  (\<^verbatim>\<open>body += chunk\<close>). The write happens in the listener of the \<^verbatim>\<open>end\<close> event, which runs
  after the handler's \<^verbatim>\<open>try\<close> block has been left.\<close>

definition write_text :: "node \<Rightarrow> string \<Rightarrow> string \<Rightarrow> string list \<Rightarrow> outcome \<times> node" where
  "write_text fs workspaceDir subPath data =
     (let actualFileName = strip_text subPath;
          actualFilePath = path_join workspaceDir actualFileName
      in if \<not> startsWith actualFilePath workspaceDir then (Json 403 (JError ''Forbidden''), fs)
         else
           let body = concat (map utf8_decode data)
           in (case writeFileSync fs actualFilePath (utf8_encode body) of
                 Inl e \<Rightarrow> (Uncaught e, fs)
               | Inr fs' \<Rightarrow> (Json 200 JOk, fs')))"

subsection \<open>Upload: \<^verbatim>\<open>POST /api/workspace/upload\<close>\<close>

text \<open>\<^verbatim>\<open>req.headers["content-type"]?.split("boundary=")[1]\<close>; \<open>None\<close> stands for the values
  that \<^verbatim>\<open>!boundary\<close> rejects (\<^verbatim>\<open>undefined\<close> and the empty string).\<close>

definition boundary_of :: "string option \<Rightarrow> string option" where
  "boundary_of ct =
     (case ct of
        None \<Rightarrow> None
      | Some h \<Rightarrow>
          (case split_str h ''boundary='' of
             a # b # rest \<Rightarrow> if b = [] then None else Some b
           | _ \<Rightarrow> None))"

text \<open>\<^verbatim>\<open>part.match(/filename="(.+?)"/)\<close>: at the leftmost \<^verbatim>\<open>filename="\<close> that can be
  completed, the shortest non-empty run of characters up to a double quote; the dot of the
  pattern matches no line terminator. \<open>filename_attr\<close> is the text \<^verbatim>\<open>filename="\<close>;
  \<open>capture_name\<close> is given what follows it.\<close>

definition filename_attr :: string where
  "filename_attr = ''filename='' @ DQ"

definition is_line_terminator :: "char \<Rightarrow> bool" where
  "is_line_terminator c = (c = LF \<or> c = CR)"

definition capture_name :: "string \<Rightarrow> string option" where
  "capture_name r =
     (case r of
        [] \<Rightarrow> None
      | c0 # r' \<Rightarrow>
          (let cap = takeWhile (\<lambda>c. c \<noteq> CHR 0x22) r'
           in if is_line_terminator c0 then None
              else if length cap < length r' \<and> list_all (\<lambda>c. \<not> is_line_terminator c) cap
              then Some (c0 # cap)
              else None))"

fun match_filename :: "string \<Rightarrow> string option" where
  "match_filename [] = None"
| "match_filename (c # cs) =
     (if prefix filename_attr (c # cs) then
        (case capture_name (drop (length filename_attr) (c # cs)) of
           Some n \<Rightarrow> Some n
         | None \<Rightarrow> match_filename cs)
      else match_filename cs)"

text \<open>The file name and the content of a part that carries \<^verbatim>\<open>filename="\<close>; \<open>None\<close> for a
  part that is skipped.\<close>

definition part_file :: "string \<Rightarrow> (string \<times> string) option" where
  "part_file part =
     (if includes_str part filename_attr then
        (let fileName = (case match_filename part of
                           Some n \<Rightarrow> n
                         | None \<Rightarrow> ''uploaded_file'');
             contentStart = js_index (indexOf part (CRLF @ CRLF)) + 4;
             contentEnd = js_index (lastIndexOf part CRLF);
             content = slice part contentStart contentEnd
         in Some (fileName, content))
      else None)"

text \<open>The loop over the parts, in the listener of the \<^verbatim>\<open>end\<close> event. A write that throws
  ends the loop; the files written before it stay.\<close>

fun store_parts :: "node \<Rightarrow> string \<Rightarrow> string list \<Rightarrow> exn option \<times> node" where
  "store_parts fs workspaceDir [] = (None, fs)"
| "store_parts fs workspaceDir (part # parts) =
     (case part_file part of
        None \<Rightarrow> store_parts fs workspaceDir parts
      | Some (fileName, content) \<Rightarrow>
          (let targetPath = path_join workspaceDir (latin1_to_utf8 fileName)
           in if startsWith targetPath workspaceDir then
                (case writeFileSync fs targetPath content of
                   Inl e \<Rightarrow> (Some e, fs)
                 | Inr fs' \<Rightarrow> store_parts fs' workspaceDir parts)
              else store_parts fs workspaceDir parts))"

text \<open>The body is the concatenation of the buffers (\<^verbatim>\<open>Buffer.concat\<close>), read as a
  \<^verbatim>\<open>binary\<close> string: one character per byte.\<close>

definition upload :: "node \<Rightarrow> string \<Rightarrow> string option \<Rightarrow> string list \<Rightarrow> outcome \<times> node" where
  "upload fs workspaceDir ct data =
     (case boundary_of ct of
        None \<Rightarrow> (Json 400 (JError ''Missing boundary''), fs)
      | Some boundary \<Rightarrow>
          (let body = concat data;
               parts = split_str body (''--'' @ boundary)
           in (case store_parts fs workspaceDir parts of
                 (None, fs') \<Rightarrow> (Json 200 JOk, fs')
               | (Some e, fs') \<Rightarrow> (Uncaught e, fs'))))"

subsection \<open>\<^verbatim>\<open>handleWorkspaceHttpRequest\<close>\<close>

text \<open>
  The two collaborators of the handler are parameters: \<open>authorized\<close> is the answer of
  \<^verbatim>\<open>authorizeGatewayConnect\<close>, \<open>rootWorkspaceDir\<close> the directory that
  \<^verbatim>\<open>resolveAgentWorkspaceDir\<close> returns. The result is the response together with the
  file system the request leaves behind.
\<close>

definition ensure_root :: "node \<Rightarrow> string \<Rightarrow> exn + node" where
  "ensure_root fs rootWorkspaceDir =
     (if \<not> existsSync fs rootWorkspaceDir then mkdirSync_recursive fs rootWorkspaceDir
      else Inr fs)"

text \<open>\<^verbatim>\<open>url.pathname.slice("/api/workspace".length).replace(/^\/+/, "")\<close>.\<close>

definition sub_path :: "string \<Rightarrow> string" where
  "sub_path p = dropWhile (\<lambda>c. c = CHR ''/'') (drop (length ''/api/workspace'') p)"

text \<open>The block of the file operations; \<open>None\<close> when no branch of it returns.\<close>

definition file_operations ::
  "string \<Rightarrow> node \<Rightarrow> string \<Rightarrow> request \<Rightarrow> string \<Rightarrow> (outcome \<times> node) option" where
  "file_operations rootWorkspaceDir fs workspaceDir req subPath =
     (case decodeURIComponent subPath of
        None \<Rightarrow> Some (Uncaught URIError, fs)
      | Some fileName \<Rightarrow>
          (let filePath = path_join workspaceDir fileName
           in if \<not> startsWith filePath rootWorkspaceDir then
                Some (Json 403 (JError ''Forbidden''), fs)
              else if req_method req = ''GET'' \<and> \<not> includes_str (pathname req) ''/text/'' then
                Some (download fs filePath fileName, fs)
              else if req_method req = ''DELETE'' then Some (delete_path fs filePath)
              else if req_method req = ''GET'' \<and> includes_str (pathname req) ''/text/'' then
                Some (read_text fs workspaceDir subPath, fs)
              else if req_method req = ''PUT'' \<and> includes_str (pathname req) ''/text/'' then
                Some (write_text fs workspaceDir subPath (chunks req))
              else None))"

definition upload_route :: "node \<Rightarrow> string \<Rightarrow> request \<Rightarrow> outcome \<times> node" where
  "upload_route fs workspaceDir req =
     (if pathname req = ''/api/workspace/upload'' \<and> req_method req = ''POST'' then
        upload fs workspaceDir (content_type req) (chunks req)
      else (NotHandled, fs))"

definition handleWorkspaceHttpRequest ::
  "string \<Rightarrow> bool \<Rightarrow> node \<Rightarrow> request \<Rightarrow> outcome \<times> node" where
  "handleWorkspaceHttpRequest rootWorkspaceDir authorized fs0 req =
     (if \<not> startsWith (pathname req) ''/api/workspace'' then (NotHandled, fs0)
      else if \<not> authorized then (Unauthorized, fs0)
      else (case ensure_root fs0 rootWorkspaceDir of
              Inl e \<Rightarrow> (Uncaught e, fs0)
            | Inr fs \<Rightarrow>
                (let subPath = sub_path (pathname req);
                     queryPath = (case query_path req of None \<Rightarrow> [] | Some q \<Rightarrow> q);
                     workspaceDir = path_join rootWorkspaceDir queryPath
                 in if \<not> startsWith workspaceDir rootWorkspaceDir then
                      (Json 403 (JError ''Forbidden''), fs)
                    else if subPath = [] \<and> req_method req = ''GET'' then
                      (list_files fs workspaceDir, fs)
                    else if subPath \<noteq> [] then
                      (case file_operations rootWorkspaceDir fs workspaceDir req subPath of
                         Some r \<Rightarrow> r
                       | None \<Rightarrow> upload_route fs workspaceDir req)
                    else upload_route fs workspaceDir req)))"

section \<open>Example data and observations\<close>

text \<open>A small file system: the workspace root \<^verbatim>\<open>/data/ws\<close> with a file, a directory with
  nested content, and beside the root a directory \<^verbatim>\<open>/data/ws-evil\<close>.\<close>

definition example_fs :: node where
  "example_fs =
     Dir [(''data'',
           Dir [(''ws'',
                 Dir [(''a b.txt'', File ''hi''),
                      (''sub'',
                       Dir [(''x'', File ''1''), (''deep'', Dir [(''y'', File ''2'')])])]),
                (''ws-evil'', Dir [(''secret.txt'', File ''s'')])])]"

definition simple_request :: "string \<Rightarrow> string \<Rightarrow> string option \<Rightarrow> string list \<Rightarrow> request" where
  "simple_request m p q body =
     \<lparr>req_method = m, pathname = p, query_path = q, content_type = None, chunks = body\<rparr>"

text \<open>The names that a listing response shows.\<close>

definition listed_names :: "outcome \<Rightarrow> string list" where
  "listed_names r = (case r of Json st (JFiles fl) \<Rightarrow> map fe_name fl | _ \<Rightarrow> [])"

text \<open>An upload request with the given \<^verbatim>\<open>content-type\<close> header.\<close>

definition upload_request :: "string \<Rightarrow> string list \<Rightarrow> request" where
  "upload_request ct body =
     \<lparr>req_method = ''POST'', pathname = ''/api/workspace/upload'', query_path = None,
      content_type = Some ct, chunks = body\<rparr>"

text \<open>A request fails the containment check when the handler reaches one of its prefix
  comparisons (of the resolved directory and of the resolved file path with the root, of
  the path of a text file with the resolved directory) and the comparison fails.\<close>

definition containment_check_fails :: "string \<Rightarrow> request \<Rightarrow> bool" where
  "containment_check_fails rootWorkspaceDir req =
     (let subPath = sub_path (pathname req);
          queryPath = (case query_path req of None \<Rightarrow> [] | Some q \<Rightarrow> q);
          workspaceDir = path_join rootWorkspaceDir queryPath
      in if \<not> startsWith workspaceDir rootWorkspaceDir then True
         else if subPath = [] then False
         else (case decodeURIComponent subPath of
                 None \<Rightarrow> False
               | Some fileName \<Rightarrow>
                   if \<not> startsWith (path_join workspaceDir fileName) rootWorkspaceDir then True
                   else (req_method req = ''GET'' \<or> req_method req = ''PUT'')
                        \<and> includes_str (pathname req) ''/text/''
                        \<and> \<not> startsWith (path_join workspaceDir (strip_text subPath))
                              workspaceDir))"

text \<open>An absolute, normalized path, given by its segments.\<close>

definition proper_segment :: "string \<Rightarrow> bool" where
  "proper_segment s = (s \<noteq> [] \<and> s \<noteq> ''.'' \<and> s \<noteq> ''..'' \<and> CHR ''/'' \<notin> set s)"

definition abs_path :: "string list \<Rightarrow> string" where
  "abs_path segs = ''/'' @ join_segs segs"

definition is_dir_at :: "node \<Rightarrow> string list \<Rightarrow> bool" where
  "is_dir_at fs segs = (case lookup fs segs of Some (Dir es) \<Rightarrow> True | _ \<Rightarrow> False)"

text \<open>A multipart body with one part: the boundary line, the part's header block, an empty
  line, the content, and the closing boundary line. \<open>file_part_headers\<close> is the header block
  that a browser writes for a file of a form.\<close>

definition multipart_body :: "string \<Rightarrow> string \<Rightarrow> string \<Rightarrow> string" where
  "multipart_body boundary headers content =
     ''--'' @ boundary @ CRLF @ headers @ CRLF @ CRLF @ content @ CRLF
       @ ''--'' @ boundary @ ''--'' @ CRLF"

definition file_part_headers :: "string \<Rightarrow> string" where
  "file_part_headers fileName =
     ''Content-Disposition: form-data; name='' @ DQ @ ''files'' @ DQ @ ''; filename='' @ DQ
       @ fileName @ DQ @ CRLF @ ''Content-Type: application/octet-stream''"

text \<open>A header block whose file name is not quoted.\<close>

definition unquoted_headers :: string where
  "unquoted_headers =
     ''Content-Disposition: form-data; name=files; filename=report.txt'' @ CRLF
       @ ''Content-Type: application/octet-stream''"








section \<open>Properties\<close>

subsection \<open>The tree\<close>

lemma lookup_append:
  "lookup fs (ps @ qs) = (case lookup fs ps of None \<Rightarrow> None | Some n \<Rightarrow> lookup n qs)"
proof (induction ps arbitrary: fs)
  case Nil
  show ?case by simp
next
  case (Cons p ps)
  show ?case
  proof (cases fs)
    case (File c)
    then show ?thesis by simp
  next
    case (Dir es)
    then show ?thesis using Cons.IH by (simp split: option.splits)
  qed
qed

lemma tree_remove_succeeds:
  "lookup fs (ps @ [n]) = Some m \<Longrightarrow> \<exists>fs'. tree_remove fs (ps @ [n]) = Inr fs'"
proof (induction ps arbitrary: fs)
  case Nil
  then show ?case by (cases fs) (auto split: option.splits)
next
  case (Cons p ps)
  show ?case
  proof (cases fs)
    case (File c)
    with Cons.prems show ?thesis by simp
  next
    case (Dir es)
    with Cons.prems obtain c where c: "map_of es p = Some c" "lookup c (ps @ [n]) = Some m"
      by (auto split: option.splits)
    from Cons.IH [OF c(2)] obtain c' where "tree_remove c (ps @ [n]) = Inr c'" ..
    with Dir c show ?thesis by simp
  qed
qed

lemma tree_remove_gone:
  "tree_remove fs (ps @ [n]) = Inr fs' \<Longrightarrow> lookup fs' (ps @ n # qs) = None"
proof (induction ps arbitrary: fs fs')
  case Nil
  then show ?case
    by (cases fs) (auto simp: delete_conv' split: option.splits)
next
  case (Cons p ps)
  show ?case
  proof (cases fs)
    case (File c)
    with Cons.prems show ?thesis by simp
  next
    case (Dir es)
    with Cons.prems obtain c c' where c: "map_of es p = Some c"
      "tree_remove c (ps @ [n]) = Inr c'" "fs' = Dir (AList.update p c' es)"
      by (auto split: option.splits sum.splits)
    from Cons.IH [OF c(2)] show ?thesis using c by (simp add: update_conv')
  qed
qed

lemma tree_remove_parent:
  "tree_remove fs (ps @ [n]) = Inr fs' \<Longrightarrow> lookup fs ps = Some (Dir es) \<Longrightarrow>
   lookup fs' ps = Some (Dir (AList.delete n es))"
proof (induction ps arbitrary: fs fs')
  case Nil
  then show ?case by (auto split: option.splits)
next
  case (Cons p ps)
  show ?case
  proof (cases fs)
    case (File c)
    with Cons.prems show ?thesis by simp
  next
    case (Dir ds)
    with Cons.prems obtain c c' where c: "map_of ds p = Some c"
      "tree_remove c (ps @ [n]) = Inr c'" "fs' = Dir (AList.update p c' ds)"
      by (auto split: option.splits sum.splits)
    from Cons.prems(2) Dir c have "lookup c ps = Some (Dir es)" by simp
    from Cons.IH [OF c(2) this] show ?thesis using c by (simp add: update_conv')
  qed
qed

lemma map_throwing_names:
  "map_throwing (list_entry fs wd) names = Inr files \<Longrightarrow> map fe_name files = names"
proof (induction names arbitrary: files)
  case Nil
  then show ?case by simp
next
  case (Cons n names)
  then show ?case
    by (auto simp: list_entry_def Let_def split: sum.splits)
qed

lemma listed_names_readdir:
  "readdirSync fs dir = Inr names \<Longrightarrow> set (listed_names (list_files fs dir)) \<subseteq> set names"
proof (cases "map_throwing (list_entry fs dir) names")
  case (Inl e)
  assume "readdirSync fs dir = Inr names"
  with Inl show ?thesis by (simp add: listed_names_def list_files_def)
next
  case (Inr files)
  assume rd: "readdirSync fs dir = Inr names"
  from Inr have "map fe_name files = names" by (rule map_throwing_names)
  then have "set (map fe_name (filter (\<lambda>f. \<not> startsWith (fe_name f) ''.'') files)) \<subseteq> set names"
    by auto
  with rd Inr show ?thesis by (simp add: listed_names_def list_files_def)
qed

lemma listed_names_subset:
  "set (listed_names (list_files fs dir)) \<subseteq>
     (case fs_node fs dir of Some (Dir es) \<Rightarrow> fst ` set es | _ \<Rightarrow> {})"
proof (cases "readdirSync fs dir")
  case (Inl e)
  then show ?thesis by (simp add: listed_names_def list_files_def)
next
  case (Inr names)
  from listed_names_readdir [OF Inr] Inr show ?thesis
    by (auto simp: readdirSync_def split: option.splits node.splits)
qed

lemma fs_node_Dir_lookup:
  "fs_node fs p = Some (Dir es) \<Longrightarrow> lookup fs (fs_path p) = Some (Dir es)"
  by (auto simp: fs_node_def split: if_splits option.splits node.splits)

lemma fs_node_lookup_None:
  "lookup fs (fs_path p) = None \<Longrightarrow> fs_node fs p = None"
  by (simp add: fs_node_def)

lemma tree_write_child:
  assumes "lookup fs segs = Some (Dir es)"
      and "\<And>ds. lookup fs (segs @ [n]) \<noteq> Some (Dir ds)"
  shows "\<exists>fs'. tree_write fs (segs @ [n]) c = Inr fs' \<and> lookup fs' (segs @ [n]) = Some (File c)"
  using assms
proof (induction segs arbitrary: fs)
  case Nil
  show ?case
  proof (cases "map_of es n")
    case None
    with Nil show ?thesis by (simp add: update_conv')
  next
    case (Some a)
    with Nil obtain x where "a = File x" by (cases a) auto
    with Some Nil show ?thesis by (simp add: update_conv')
  qed
next
  case (Cons s segs)
  show ?case
  proof (cases fs)
    case (File x)
    with Cons.prems show ?thesis by simp
  next
    case (Dir ds)
    with Cons.prems(1) obtain m where m: "map_of ds s = Some m" "lookup m segs = Some (Dir es)"
      by (auto split: option.splits)
    have "\<And>ds'. lookup m (segs @ [n]) \<noteq> Some (Dir ds')"
      using Cons.prems(2) Dir m by simp
    from Cons.IH [OF m(2) this] obtain m' where
      "tree_write m (segs @ [n]) c = Inr m'" "lookup m' (segs @ [n]) = Some (File c)" by blast
    with Dir m show ?thesis by (simp add: update_conv')
  qed
qed


lemma fs_node_path_ok: "fs_node fs p = Some n \<Longrightarrow> path_error p = None"
  by (auto simp: fs_node_def split: if_splits)

lemma tree_remove_beside:
  "tree_remove fs (ps @ [n]) = Inr fs' \<Longrightarrow> \<not> prefix (ps @ [n]) q \<Longrightarrow> \<not> prefix q (ps @ [n]) \<Longrightarrow>
   lookup fs' q = lookup fs q"
proof (induction ps arbitrary: fs fs' q)
  case Nil
  from Nil.prems(3) obtain m q' where q: "q = m # q'" by (cases q) auto
  with Nil.prems(2) have mn: "m \<noteq> n" by auto
  from Nil.prems(1) obtain es where "fs = Dir es" "fs' = Dir (AList.delete n es)"
    by (cases fs) (auto split: option.splits)
  with q mn show ?case by (simp add: delete_conv')
next
  case (Cons p ps)
  from Cons.prems(3) obtain m q' where q: "q = m # q'" by (cases q) auto
  from Cons.prems(1) obtain es c c' where c: "fs = Dir es" "map_of es p = Some c"
      "tree_remove c (ps @ [n]) = Inr c'" "fs' = Dir (AList.update p c' es)"
    by (cases fs) (auto split: option.splits sum.splits)
  show ?case
  proof (cases "m = p")
    case True
    with Cons.prems q have "\<not> prefix (ps @ [n]) q'" "\<not> prefix q' (ps @ [n])" by auto
    from Cons.IH [OF c(3) this] True q c show ?thesis by (simp add: update_conv')
  next
    case False
    with q c show ?thesis by (simp add: update_conv')
  qed
qed

lemma lookup_parent_Dir:
  "lookup fs (ps @ [n]) = Some m \<Longrightarrow> \<exists>ds. lookup fs ps = Some (Dir ds)"
  by (cases "lookup fs ps") (auto simp: lookup_append elim: lookup.elims split: option.splits)

subsection \<open>Normalized paths\<close>

lemma segments_of_nonempty: "segments_of s \<noteq> []"
  by (induction s) (auto split: list.splits)

lemma segments_of_append_slash:
  "segments_of (xs @ CHR ''/'' # ys) = segments_of xs @ segments_of ys"
proof (induction xs)
  case Nil
  show ?case by simp
next
  case (Cons c xs)
  then show ?case
    using segments_of_nonempty [of xs] by (auto split: list.splits)
qed

lemma segments_of_no_slash: "CHR ''/'' \<notin> set s \<Longrightarrow> segments_of s = [s]"
  by (induction s) auto

lemma segments_of_join:
  "list_all proper_segment segs \<Longrightarrow> segs \<noteq> [] \<Longrightarrow> segments_of (join_segs segs) = segs"
proof (induction segs rule: join_segs.induct)
  case 1
  then show ?case by simp
next
  case (2 s)
  then show ?case by (simp add: segments_of_no_slash proper_segment_def)
next
  case (3 s t ss)
  then show ?case
    by (simp add: segments_of_append_slash segments_of_no_slash proper_segment_def)
qed

lemma normalize_segments_proper:
  "list_all proper_segment ss \<Longrightarrow> normalize_segments a res ss = rev res @ ss"
  by (induction ss arbitrary: res) (auto simp: proper_segment_def)

lemma join_segs_snoc:
  "join_segs (segs @ [x]) = (if segs = [] then x else join_segs segs @ ''/'' @ x)"
  by (induction segs rule: join_segs.induct) auto

lemma join_segs_eq_Nil:
  "list_all proper_segment segs \<Longrightarrow> join_segs segs = [] \<longleftrightarrow> segs = []"
  by (induction segs rule: join_segs.induct) (auto simp: proper_segment_def)

lemma segments_of_abs_path:
  "list_all proper_segment segs \<Longrightarrow>
   segments_of (abs_path segs) = [] # (if segs = [] then [[]] else segs)"
  using segments_of_join [of segs] by (auto simp: abs_path_def)

lemma fs_path_abs_path:
  "list_all proper_segment segs \<Longrightarrow> fs_path (abs_path segs) = segs"
  by (auto simp: fs_path_def segments_of_abs_path normalize_segments_proper)

lemma last_join_segs:
  "list_all proper_segment segs \<Longrightarrow> segs \<noteq> [] \<Longrightarrow> last (join_segs segs) = last (last segs)"
proof (induction segs rule: join_segs.induct)
  case 1
  then show ?case by simp
next
  case (2 s)
  then show ?case by simp
next
  case (3 s t ss)
  from 3 have "join_segs (t # ss) \<noteq> []" using join_segs_eq_Nil [of "t # ss"] by simp
  with 3 show ?case by simp
qed

lemma proper_last: "proper_segment x \<Longrightarrow> last x \<noteq> CHR ''/''"
proof
  assume p: "proper_segment x" and l: "last x = CHR ''/''"
  from p have "x \<noteq> []" by (simp add: proper_segment_def)
  then have "last x \<in> set x" by (rule last_in_set)
  with p l show False by (simp add: proper_segment_def)
qed

lemma last_abs_path:
  assumes "list_all proper_segment segs" "segs \<noteq> []"
  shows "last (abs_path segs) \<noteq> CHR ''/''"
proof -
  have "join_segs segs \<noteq> []" using assms by (simp add: join_segs_eq_Nil)
  then show ?thesis
    using assms last_join_segs [of segs] proper_last [of "last segs"]
    by (auto simp: abs_path_def list_all_iff)
qed

lemma normalize_abs_path:
  assumes "list_all proper_segment segs" "segs \<noteq> []"
  shows "normalize (abs_path segs) = abs_path segs"
proof -
  have ne: "join_segs segs \<noteq> []" using assms by (simp add: join_segs_eq_Nil)
  have l: "last (abs_path segs) \<noteq> CHR ''/''"
    using assms ne last_join_segs [of segs] proper_last [of "last segs"]
    by (auto simp: abs_path_def list_all_iff)
  have "normalizeString (abs_path segs) False = join_segs segs"
    using assms by (simp add: normalizeString_def segments_of_abs_path normalize_segments_proper)
  with ne l show ?thesis
    by (simp add: normalize_def abs_path_def Let_def)
qed

lemma path_join_child:
  assumes "list_all proper_segment segs" "proper_segment x"
  shows "path_join (abs_path segs) x = abs_path (segs @ [x])"
proof -
  have px: "list_all proper_segment (segs @ [x])" using assms by simp
  have "abs_path segs @ ''/'' @ x = abs_path (segs @ [x]) \<or> (segs = [] \<and> abs_path segs @ ''/'' @ x = ''//'' @ x)"
    by (auto simp: abs_path_def join_segs_snoc)
  moreover have "normalize (''//'' @ x) = abs_path [x]"
  proof -
    have "normalizeString (''//'' @ x) False = x"
      using assms(2) segments_of_no_slash [of x]
      by (simp add: normalizeString_def proper_segment_def)
    then show ?thesis using assms(2) proper_last [of x]
      by (simp add: normalize_def abs_path_def Let_def proper_segment_def)
  qed
  moreover have "normalize (abs_path (segs @ [x])) = abs_path (segs @ [x])"
    using px by (rule normalize_abs_path) simp
  moreover have "x \<noteq> []" "abs_path segs \<noteq> []"
    using assms(2) by (auto simp: proper_segment_def abs_path_def)
  ultimately show ?thesis by (auto simp: path_join_def)
qed

lemma abs_path_child_startsWith:
  "startsWith (abs_path (segs @ [x])) (abs_path segs)"
  by (simp add: startsWith_def abs_path_def join_segs_snoc)


lemma segments_of_slash_free: "s \<in> set (segments_of p) \<Longrightarrow> CHR ''/'' \<notin> set s"
proof (induction p arbitrary: s)
  case Nil
  then show ?case by simp
next
  case (Cons c p)
  then show ?case
    using segments_of_nonempty [of p] by (auto split: if_splits list.splits)
qed

lemma segments_of_join_slash_free:
  "xs \<noteq> [] \<Longrightarrow> list_all (\<lambda>s. CHR ''/'' \<notin> set s) xs \<Longrightarrow> segments_of (join_segs xs) = xs"
proof (induction xs rule: join_segs.induct)
  case 1
  then show ?case by simp
next
  case (2 s)
  then show ?case by (simp add: segments_of_no_slash)
next
  case (3 s t ss)
  then show ?case by (simp add: segments_of_append_slash segments_of_no_slash)
qed

lemma normalize_segments_snoc:
  "proper_segment n \<Longrightarrow>
   normalize_segments a res (ss @ [n]) = normalize_segments a res ss @ [n]"
  by (induction ss arbitrary: res) (auto simp: proper_segment_def split: list.splits)

lemma normalize_segments_slash_free:
  "list_all (\<lambda>s. CHR ''/'' \<notin> set s) res \<Longrightarrow> list_all (\<lambda>s. CHR ''/'' \<notin> set s) ss \<Longrightarrow>
   list_all (\<lambda>s. CHR ''/'' \<notin> set s) (normalize_segments a res ss)"
  by (induction ss arbitrary: res) (auto split: list.splits)

lemma normalize_segments_False_proper:
  "list_all proper_segment res \<Longrightarrow> list_all (\<lambda>s. CHR ''/'' \<notin> set s) ss \<Longrightarrow>
   list_all proper_segment (normalize_segments False res ss)"
  by (induction ss arbitrary: res) (auto simp: proper_segment_def split: list.splits)

lemma normalize_segments_leading_dots:
  "normalize_segments False [] (replicate k ''..'' @ xs) = normalize_segments False [] xs"
  by (induction k) auto

lemma normalize_segments_relative:
  "list_all proper_segment resF \<Longrightarrow> list_all (\<lambda>s. CHR ''/'' \<notin> set s) ss \<Longrightarrow>
   normalize_segments False [] (normalize_segments True (resF @ replicate k ''..'') ss)
     = normalize_segments False resF ss"
proof (induction ss arbitrary: resF k)
  case Nil
  then show ?case
    by (simp add: normalize_segments_leading_dots normalize_segments_proper)
next
  case (Cons s ss)
  note prems = Cons.prems and IH = Cons.IH
  from prems have sf: "list_all (\<lambda>s. CHR ''/'' \<notin> set s) ss" and s: "CHR ''/'' \<notin> set s"
    by simp_all
  show ?case
  proof (cases "s = [] \<or> s = ''.''")
    case True
    then show ?thesis using IH [OF prems(1) sf, of k] by auto
  next
    case False
    show ?thesis
    proof (cases "s = ''..''")
      case dots: True
      show ?thesis
      proof (cases resF)
        case Nil
        have "normalize_segments True (replicate k ''..'') (''..'' # ss)
                = normalize_segments True (replicate (Suc k) ''..'') ss"
          by (cases k) auto
        with Nil dots IH [of "[]" "Suc k"] sf show ?thesis by simp
      next
        case (Cons t rF)
        with prems(1) have pt: "proper_segment t" and prF: "list_all proper_segment rF"
          by simp_all
        from pt have "t \<noteq> ''..''" by (simp add: proper_segment_def)
        with Cons dots IH [OF prF sf, of k] show ?thesis by simp
      qed
    next
      case nodots: False
      with False s have "proper_segment s" by (simp add: proper_segment_def)
      with prems(1) have "list_all proper_segment (s # resF)" by simp
      from IH [OF this sf, of k] False nodots show ?thesis by simp
    qed
  qed
qed

lemma fs_path_path_join_child:
  assumes dir: "dir \<noteq> []" and n: "proper_segment n"
  shows "fs_path (path_join dir n) = fs_path dir @ [n]"
proof -
  let ?a = "hd dir \<noteq> CHR ''/''"
  let ?S = "segments_of dir"
  let ?N = "normalize_segments ?a [] ?S"
  let ?p = "dir @ CHR ''/'' # n"
  have nne: "n \<noteq> []" and nsf: "CHR ''/'' \<notin> set n" using n by (auto simp: proper_segment_def)
  have sfS: "list_all (\<lambda>s. CHR ''/'' \<notin> set s) ?S"
    by (auto simp: list_all_iff dest: segments_of_slash_free)
  have sfN: "list_all (\<lambda>s. CHR ''/'' \<notin> set s) (?N @ [n])"
    using normalize_segments_slash_free [OF _ sfS, of "[]" ?a] nsf by simp
  have segs: "segments_of ?p = ?S @ [n]"
    using nsf by (simp add: segments_of_append_slash segments_of_no_slash)
  have ns: "normalizeString ?p ?a = join_segs (?N @ [n])"
    by (simp only: normalizeString_def segs normalize_segments_snoc [OF n])
  have jne: "join_segs (?N @ [n]) \<noteq> []" using nne by (simp add: join_segs_snoc)
  have hd: "hd ?p = hd dir" using dir by simp
  have lst: "last ?p \<noteq> CHR ''/''"
    using nne proper_last [OF n] by simp
  have pne: "?p \<noteq> []" by simp
  have norm: "normalize ?p = (if ?a then [] else ''/'') @ join_segs (?N @ [n])"
    unfolding normalize_def Let_def hd ns using jne lst pne by auto
  have sj: "segments_of (join_segs (?N @ [n])) = ?N @ [n]"
    by (rule segments_of_join_slash_free [OF _ sfN]) simp
  have "fs_path (normalize ?p) = normalize_segments False [] (?N @ [n])"
    unfolding fs_path_def norm using sj by auto
  also have "\<dots> = normalize_segments False [] ?N @ [n]"
    by (rule normalize_segments_snoc [OF n])
  also have "normalize_segments False [] ?N = normalize_segments False [] ?S"
  proof (cases ?a)
    case True
    with normalize_segments_relative [OF _ sfS, of "[]" 0] show ?thesis by simp
  next
    case False
    then have "?N = normalize_segments False [] ?S" by simp
    moreover have "list_all proper_segment (normalize_segments False [] ?S)"
      by (rule normalize_segments_False_proper [OF _ sfS]) simp
    ultimately show ?thesis by (simp add: normalize_segments_proper)
  qed
  finally have "fs_path (normalize ?p) = fs_path dir @ [n]" by (simp add: fs_path_def)
  then show ?thesis using dir nne by (simp add: path_join_def)
qed

subsection \<open>Searching and splitting\<close>

lemma prefix_short:
  "prefix xs (ys @ zs) \<Longrightarrow> length xs \<le> length ys \<Longrightarrow> prefix xs ys"
  by (auto simp: prefix_append)

lemma split_go_skip:
  "length xs = k \<Longrightarrow> split_go sep k acc (xs @ rest) = split_go sep 0 acc rest"
proof (induction xs arbitrary: k)
  case Nil
  then show ?case by simp
next
  case (Cons x xs)
  then obtain k' where "k = Suc k'" "length xs = k'" by (cases k) auto
  with Cons.IH show ?case by simp
qed

lemma no_match_inside:
  assumes "sep \<noteq> []" "\<not> sublist sep ((x # a) @ butlast sep)"
  shows "\<not> prefix sep ((x # a) @ sep @ rest)"
proof
  assume p: "prefix sep ((x # a) @ sep @ rest)"
  from assms(1) have e: "butlast sep @ [last sep] = sep" by simp
  have "((x # a) @ butlast sep) @ (last sep # rest) = (x # a) @ (butlast sep @ [last sep]) @ rest"
    by simp
  also have "\<dots> = (x # a) @ sep @ rest" by (simp only: e)
  finally have eq: "((x # a) @ butlast sep) @ (last sep # rest) = (x # a) @ sep @ rest" .
  from p have "prefix sep (((x # a) @ butlast sep) @ (last sep # rest))" by (simp only: eq)
  moreover have "length sep \<le> length ((x # a) @ butlast sep)" by simp
  ultimately have "prefix sep ((x # a) @ butlast sep)" by (rule prefix_short)
  then have "sublist sep ((x # a) @ butlast sep)" by (rule prefix_imp_sublist)
  with assms(2) show False by simp
qed

lemma split_go_found:
  assumes "sep \<noteq> []" "\<not> sublist sep (a @ butlast sep)"
  shows "split_go sep 0 acc (a @ sep @ rest) = (rev acc @ a) # split_go sep 0 [] rest"
  using assms(2)
proof (induction a arbitrary: acc)
  case Nil
  from assms(1) obtain c sep' where sep: "sep = c # sep'" by (cases sep) auto
  have "split_go sep 0 acc (sep @ rest) = rev acc # split_go sep (length sep - 1) [] (sep' @ rest)"
    by (simp add: sep)
  also have "split_go sep (length sep - 1) [] (sep' @ rest) = split_go sep 0 [] rest"
    by (rule split_go_skip) (simp add: sep)
  finally show ?case by simp
next
  case (Cons x a)
  from no_match_inside [OF assms(1) Cons.prems]
  have np: "\<not> prefix sep ((x # a) @ sep @ rest)" .
  have "\<not> sublist sep (a @ butlast sep)"
    using Cons.prems by (auto simp: sublist_Cons_right)
  from Cons.IH [OF this, of "x # acc"] np show ?case by simp
qed

lemma split_go_none:
  "\<not> sublist sep s \<Longrightarrow> split_go sep 0 acc s = [rev acc @ s]"
  by (induction s arbitrary: acc) (auto simp: sublist_Cons_right)

lemma lastIndexOf_short: "length s < length sub \<Longrightarrow> lastIndexOf s sub = None"
proof (induction s)
  case Nil
  then show ?case by auto
next
  case (Cons c s)
  then have "\<not> prefix sub (c # s)" by (auto dest: prefix_length_le)
  with Cons show ?case by simp
qed

lemma lastIndexOf_append:
  "sub \<noteq> [] \<Longrightarrow> lastIndexOf (a @ sub) sub = Some (length a)"
proof (induction a)
  case Nil
  then obtain c s where "sub = c # s" by (cases sub) auto
  then show ?case using lastIndexOf_short [of s sub] by simp
next
  case (Cons x a)
  then show ?case by simp
qed

lemma sublist_shorter: "length s < length d \<Longrightarrow> \<not> sublist d s"
  by (auto dest: sublist_length_le)

lemma sublist_foreign:
  assumes "c \<notin> set d"
  shows "sublist d (xs @ c # ys) \<longleftrightarrow> sublist d xs \<or> sublist d ys"
proof
  assume "sublist d (xs @ c # ys)"
  then consider "sublist d xs" | "sublist d (c # ys)"
    | d1 d2 where "d = d1 @ d2" "suffix d1 xs" "prefix d2 (c # ys)"
    by (auto simp: sublist_append)
  then show "sublist d xs \<or> sublist d ys"
  proof cases
    case 1
    then show ?thesis by simp
  next
    case 2
    then have "prefix d (c # ys) \<or> sublist d ys" by (simp add: sublist_Cons_right)
    moreover have "prefix d (c # ys) \<Longrightarrow> d = []"
      using assms by (cases d) auto
    ultimately show ?thesis by auto
  next
    case 3
    have "d2 = []" using 3 assms by (cases d2) auto
    with 3 show ?thesis by auto
  qed
next
  assume "sublist d xs \<or> sublist d ys"
  then show "sublist d (xs @ c # ys)"
    by (auto simp: sublist_append sublist_Cons_right)
qed


lemma indexOf_None_iff: "indexOf s d = None \<longleftrightarrow> \<not> sublist d s"
proof (induction s)
  case Nil
  show ?case by simp
next
  case (Cons c s)
  then show ?case by (cases d) (auto simp: sublist_Cons_right)
qed

lemma indexOf_found:
  assumes "sub \<noteq> []" "\<not> sublist sub (a @ butlast sub)"
  shows "indexOf (a @ sub @ rest) sub = Some (length a)"
  using assms(2)
proof (induction a)
  case Nil
  from assms(1) obtain c s where "sub = c # s" by (cases sub) auto
  then show ?case by simp
next
  case (Cons x a)
  from no_match_inside [OF assms(1) Cons.prems]
  have np: "\<not> prefix sub ((x # a) @ sub @ rest)" .
  have "\<not> sublist sub (a @ butlast sub)"
    using Cons.prems by (auto simp: sublist_Cons_right)
  from Cons.IH [OF this] np show ?case by simp
qed

lemma sublist_snoc_other:
  assumes "d \<noteq> []" "last d \<noteq> c"
  shows "sublist d (xs @ [c]) \<longleftrightarrow> sublist d xs"
proof
  assume "sublist d (xs @ [c])"
  then obtain ps ss where e: "xs @ [c] = ps @ d @ ss" by (auto simp: sublist_def)
  show "sublist d xs"
  proof (cases ss rule: rev_cases)
    case Nil
    with e have "xs @ [c] = (ps @ butlast d) @ [last d]" using assms(1) by simp
    then have "c = last d" by (simp only: append1_eq_conv)
    with assms(2) show ?thesis by simp
  next
    case (snoc ss' z)
    with e have "xs @ [c] = (ps @ d @ ss') @ [z]" by simp
    then have "xs = ps @ d @ ss'" by (simp only: append1_eq_conv)
    then show ?thesis by (auto simp: sublist_def)
  qed
next
  assume "sublist d xs"
  then show "sublist d (xs @ [c])" by (simp add: sublist_append)
qed

lemma length_CRLF: "length CRLF = 2"
  by (simp add: CRLF_def)

lemma slice_middle:
  "slice (a @ c @ z) (int (length a)) (int (length a) + int (length c)) = c"
  by (simp add: slice_def Let_def)

lemma sublist_skip_foreign:
  "c \<notin> set d \<Longrightarrow> d \<noteq> [] \<Longrightarrow> sublist d (c # ys) \<Longrightarrow> sublist d ys"
  using sublist_foreign [of c d "[]" ys] by simp

lemma sublist_skip_no_prefix:
  "\<not> prefix d (c # ys) \<Longrightarrow> sublist d (c # ys) \<Longrightarrow> sublist d ys"
  by (simp add: sublist_Cons_right)

lemma sublist_after_foreign:
  "c \<notin> set d \<Longrightarrow> \<not> sublist d xs \<Longrightarrow> sublist d (xs @ c # ys) \<Longrightarrow> sublist d ys"
  by (simp add: sublist_foreign)

lemma match_filename_at:
  "prefix filename_attr xs \<Longrightarrow> capture_name (drop (length filename_attr) xs) = Some n \<Longrightarrow>
   match_filename xs = Some n"
  by (cases xs) (auto simp: filename_attr_def)

lemma match_filename_found:
  assumes "\<not> sublist filename_attr (a @ butlast filename_attr)"
      and "capture_name rest = Some n"
  shows "match_filename (a @ filename_attr @ rest) = Some n"
  using assms(1)
proof (induction a)
  case Nil
  have "match_filename (filename_attr @ rest) = Some n"
    by (rule match_filename_at) (simp_all add: assms(2))
  then show ?case by simp
next
  case (Cons x a)
  have ne: "filename_attr \<noteq> []" by (simp add: filename_attr_def)
  from no_match_inside [OF ne Cons.prems]
  have np: "\<not> prefix filename_attr ((x # a) @ filename_attr @ rest)" .
  have "\<not> sublist filename_attr (a @ butlast filename_attr)"
    using Cons.prems by (auto simp: sublist_Cons_right)
  from Cons.IH [OF this] np show ?case by simp
qed

subsection \<open>Delete\<close>

text \<open>The Delete branch is what a \<^verbatim>\<open>DELETE\<close> request reaches once the root exists and both
  comparisons with the root succeed.\<close>

lemma delete_dispatch:
  assumes "startsWith (pathname req) ''/api/workspace''"
      and "existsSync fs rootWorkspaceDir"
      and "req_method req = ''DELETE''"
      and "sub_path (pathname req) \<noteq> []"
      and "decodeURIComponent (sub_path (pathname req)) = Some fileName"
      and "workspaceDir
             = path_join rootWorkspaceDir (case query_path req of None \<Rightarrow> [] | Some q \<Rightarrow> q)"
      and "startsWith workspaceDir rootWorkspaceDir"
      and "startsWith (path_join workspaceDir fileName) rootWorkspaceDir"
  shows "handleWorkspaceHttpRequest rootWorkspaceDir True fs req
           = delete_path fs (path_join workspaceDir fileName)"
  using assms
  by (simp add: handleWorkspaceHttpRequest_def ensure_root_def file_operations_def Let_def)

text \<open>
  C7 (idempotent delete). For every path that does not exist, the Delete operation answers
  200 \<^verbatim>\<open>{ok:true}\<close> and leaves the file system as it was; doing it a second time answers
  200 \<^verbatim>\<open>{ok:true}\<close> again, on the same file system.
\<close>

theorem delete_nonexistent_idempotent:
  assumes "\<not> existsSync fs filePath"
  shows "delete_path fs filePath = (Json 200 JOk, fs)
       \<and> delete_path (snd (delete_path fs filePath)) filePath = (Json 200 JOk, fs)"
  using assms by (simp add: delete_path_def)

theorem delete_nonexistent_idempotent_witness:
  "\<not> existsSync example_fs ''/data/ws/missing.txt''
   \<and> delete_path example_fs ''/data/ws/missing.txt'' = (Json 200 JOk, example_fs)
   \<and> delete_path (snd (delete_path example_fs ''/data/ws/missing.txt'')) ''/data/ws/missing.txt''
       = (Json 200 JOk, example_fs)"
proof -
  have h: "\<not> existsSync example_fs ''/data/ws/missing.txt''" by code_simp
  from delete_nonexistent_idempotent [OF h] h show ?thesis by simp
qed

text \<open>A listing after the removal of an entry: the entries beside the removed one are
  found as before.\<close>

lemma list_entry_name: "list_entry fs dir x = Inr y \<Longrightarrow> fe_name y = x"
  by (auto simp: list_entry_def Let_def split: sum.splits)

lemma map_throwing_filter:
  assumes "map_throwing f xs = Inr ys"
      and "\<And>x. x \<in> set xs \<Longrightarrow> P x \<Longrightarrow> f' x = f x"
      and "\<And>x y. f x = Inr y \<Longrightarrow> nm y = x"
  shows "map_throwing f' (filter P xs) = Inr (filter (\<lambda>y. P (nm y)) ys)"
  using assms(1,2)
proof (induction xs arbitrary: ys)
  case Nil
  then show ?case by simp
next
  case (Cons x xs)
  from Cons.prems(1) obtain y ys' where y: "f x = Inr y" "map_throwing f xs = Inr ys'" "ys = y # ys'"
    by (auto split: sum.splits)
  have "map_throwing f' (filter P xs) = Inr (filter (\<lambda>y. P (nm y)) ys')"
    using Cons.IH [OF y(2)] Cons.prems(2) by simp
  moreover have "nm y = x" using y(1) by (rule assms(3))
  moreover have "P x \<Longrightarrow> f' x = Inr y" using Cons.prems(2) [of x] y(1) by simp
  ultimately show ?case using y(3) by simp
qed

lemma list_entry_beside:
  assumes rm: "tree_remove fs (fs_path dir @ [name]) = Inr fs'"
      and dir: "dir \<noteq> []"
      and n: "proper_segment n" "n \<noteq> name"
  shows "list_entry fs' dir n = list_entry fs dir n"
proof -
  have p: "fs_path (path_join dir n) = fs_path dir @ [n]"
    using dir n(1) by (rule fs_path_path_join_child)
  have "lookup fs' (fs_path dir @ [n]) = lookup fs (fs_path dir @ [n])"
    using rm by (rule tree_remove_beside) (use n(2) in auto)
  then have "fs_node fs' (path_join dir n) = fs_node fs (path_join dir n)"
    by (simp add: fs_node_def p)
  then show ?thesis by (simp add: list_entry_def statSync_def Let_def split: option.splits)
qed

lemma listing_after_remove:
  assumes rm: "tree_remove fs (fs_path dir @ [name]) = Inr fs'"
      and node: "fs_node fs dir = Some (Dir ds)"
      and names: "list_all proper_segment (map fst ds)"
      and before: "list_files fs dir = Json 200 (JFiles fl)"
  shows "list_files fs' dir = Json 200 (JFiles (filter (\<lambda>f. fe_name f \<noteq> name) fl))"
proof -
  have ok: "path_error dir = None" using node by (rule fs_node_path_ok)
  have ne: "dir \<noteq> []" using node by (auto simp: fs_node_def split: if_splits)
  have rd: "readdirSync fs dir = Inr (map fst ds)"
    using node ok by (simp add: readdirSync_def)
  from before rd obtain files where
    files: "map_throwing (list_entry fs dir) (map fst ds) = Inr files" and
    fl: "fl = filter (\<lambda>f. \<not> startsWith (fe_name f) ''.'') files"
    by (auto simp: list_files_def split: sum.splits)
  have l: "lookup fs (fs_path dir) = Some (Dir ds)" using node by (rule fs_node_Dir_lookup)
  have "lookup fs' (fs_path dir) = Some (Dir (AList.delete name ds))"
    using rm l by (rule tree_remove_parent)
  then have "fs_node fs' dir = Some (Dir (AList.delete name ds))"
    using ok ne by (simp add: fs_node_def)
  then have rd': "readdirSync fs' dir = Inr (filter (\<lambda>x. x \<noteq> name) (map fst ds))"
    using ok by (simp add: readdirSync_def delete_keys removeAll_filter_not_eq) metis
  have "map_throwing (list_entry fs' dir) (filter (\<lambda>x. x \<noteq> name) (map fst ds))
          = Inr (filter (\<lambda>y. fe_name y \<noteq> name) files)"
  proof (rule map_throwing_filter [OF files])
    fix x assume "x \<in> set (map fst ds)" "x \<noteq> name"
    moreover from this names have "proper_segment x" by (auto simp: list_all_iff)
    ultimately show "list_entry fs' dir x = list_entry fs dir x"
      using list_entry_beside [OF rm ne] by simp
  next
    fix x y assume "list_entry fs dir x = Inr y"
    then show "fe_name y = x" by (rule list_entry_name)
  qed
  with rd' fl show ?thesis
    by (simp add: list_files_def) (metis (mono_tags, lifting) filter_cong)
qed

text \<open>
  C8 (recursive delete). When the path names a directory, whatever it contains, the Delete
  operation answers 200 \<^verbatim>\<open>{ok:true}\<close>. Afterwards the path does not exist and nothing is
  found at the path or below it; every path beside the deleted one names what it named
  before, and the parent directory has its former entries without the deleted one. A
  listing of the parent does not show the deleted name; when the names in the parent are
  file names and the listing succeeded before, it succeeds again and is the former listing
  without the deleted name. The parent \<open>dir\<close> and the name are given by the segments of the
  path.
\<close>

theorem delete_directory_recursive:
  assumes dir: "fs_node fs filePath = Some (Dir es)"
      and parent: "fs_path filePath = fs_path dir @ [name]"
  shows "\<exists>fs'. delete_path fs filePath = (Json 200 JOk, fs')
           \<and> \<not> existsSync fs' filePath
           \<and> (\<forall>q. lookup fs' (fs_path filePath @ q) = None)
           \<and> (\<forall>q. \<not> prefix (fs_path filePath) q \<and> \<not> prefix q (fs_path filePath)
                  \<longrightarrow> lookup fs' q = lookup fs q)
           \<and> (\<exists>ds. lookup fs (fs_path dir) = Some (Dir ds)
                  \<and> lookup fs' (fs_path dir) = Some (Dir (AList.delete name ds)))
           \<and> name \<notin> set (listed_names (list_files fs' dir))
           \<and> (\<forall>ds fl. fs_node fs dir = Some (Dir ds) \<and> list_all proper_segment (map fst ds)
                      \<and> list_files fs dir = Json 200 (JFiles fl)
                  \<longrightarrow> list_files fs' dir
                        = Json 200 (JFiles (filter (\<lambda>f. fe_name f \<noteq> name) fl)))"
proof -
  from dir have look: "lookup fs (fs_path dir @ [name]) = Some (Dir es)"
    using fs_node_Dir_lookup parent by metis
  from tree_remove_succeeds [OF look] obtain fs' where
    rm: "tree_remove fs (fs_path dir @ [name]) = Inr fs'" ..
  have ok: "path_error filePath = None" using dir by (rule fs_node_path_ok)
  have del: "delete_path fs filePath = (Json 200 JOk, fs')"
    using dir rm parent ok
    by (simp add: delete_path_def existsSync_def statSync_def rmSync_recursive_def)
  have gone: "lookup fs' (fs_path filePath @ q) = None" for q
    using tree_remove_gone [OF rm, of q] parent by simp
  from gone [of "[]"] have ne: "\<not> existsSync fs' filePath"
    by (simp add: existsSync_def fs_node_def)
  have beside: "lookup fs' q = lookup fs q"
    if "\<not> prefix (fs_path filePath) q \<and> \<not> prefix q (fs_path filePath)" for q
    using tree_remove_beside [OF rm, of q] that parent by simp
  from lookup_parent_Dir [OF look] obtain ds where l: "lookup fs (fs_path dir) = Some (Dir ds)" ..
  have l': "lookup fs' (fs_path dir) = Some (Dir (AList.delete name ds))"
    using rm l by (rule tree_remove_parent)
  have notin: "name \<notin> set (listed_names (list_files fs' dir))"
  proof (cases "fs_node fs' dir")
    case None
    with listed_names_subset [of fs' dir] show ?thesis by auto
  next
    case (Some n)
    show ?thesis
    proof (cases n)
      case (File c)
      with Some listed_names_subset [of fs' dir] show ?thesis by auto
    next
      case (Dir ds')
      with Some have "lookup fs' (fs_path dir) = Some (Dir ds')"
        by (simp add: fs_node_Dir_lookup)
      with l' have "ds' = AList.delete name ds" by simp
      then have "name \<notin> fst ` set ds'"
        by (auto simp: AList.delete_eq)
      with Some Dir listed_names_subset [of fs' dir] show ?thesis by auto
    qed
  qed
  have listing: "list_files fs' dir = Json 200 (JFiles (filter (\<lambda>f. fe_name f \<noteq> name) fl))"
    if "fs_node fs dir = Some (Dir ds0) \<and> list_all proper_segment (map fst ds0)
          \<and> list_files fs dir = Json 200 (JFiles fl)" for ds0 fl
    using listing_after_remove [OF rm, of ds0 fl] that by simp
  from del ne gone beside l l' notin listing show ?thesis by blast
qed

theorem delete_directory_recursive_witness:
  "fs_node example_fs ''/data/ws/sub''
     = Some (Dir [(''x'', File ''1''), (''deep'', Dir [(''y'', File ''2'')])])
   \<and> fs_path ''/data/ws/sub'' = fs_path ''/data/ws'' @ [''sub'']
   \<and> list_files example_fs ''/data/ws''
       = Json 200 (JFiles [\<lparr>fe_name = ''a b.txt'', fe_size = Some 2, fe_isDirectory = False\<rparr>,
                           \<lparr>fe_name = ''sub'', fe_size = None, fe_isDirectory = True\<rparr>])
   \<and> (\<exists>fs'. delete_path example_fs ''/data/ws/sub'' = (Json 200 JOk, fs')
           \<and> \<not> existsSync fs' ''/data/ws/sub''
           \<and> lookup fs' [''data'', ''ws'', ''sub'', ''deep'', ''y''] = None
           \<and> lookup fs' [''data'', ''ws'', ''a b.txt''] = Some (File ''hi'')
           \<and> ''sub'' \<notin> set (listed_names (list_files fs' ''/data/ws''))
           \<and> list_files fs' ''/data/ws''
               = Json 200 (JFiles [\<lparr>fe_name = ''a b.txt'', fe_size = Some 2,
                                     fe_isDirectory = False\<rparr>]))"
proof -
  let ?ds = "[(''a b.txt'', File ''hi''),
              (''sub'', Dir [(''x'', File ''1''), (''deep'', Dir [(''y'', File ''2'')])])]"
  let ?fl = "[\<lparr>fe_name = ''a b.txt'', fe_size = Some 2, fe_isDirectory = False\<rparr>,
              \<lparr>fe_name = ''sub'', fe_size = None, fe_isDirectory = True\<rparr>]"
  have a: "fs_node example_fs ''/data/ws/sub''
             = Some (Dir [(''x'', File ''1''), (''deep'', Dir [(''y'', File ''2'')])])"
    by code_simp
  have b: "fs_path ''/data/ws/sub'' = fs_path ''/data/ws'' @ [''sub'']"
    by code_simp
  have c: "fs_node example_fs ''/data/ws'' = Some (Dir ?ds)" by code_simp
  have d: "list_all proper_segment (map fst ?ds)" by (simp add: proper_segment_def)
  have e: "list_files example_fs ''/data/ws'' = Json 200 (JFiles ?fl)" by code_simp
  have p: "fs_path ''/data/ws/sub'' = [''data'', ''ws'', ''sub'']" by code_simp
  have k: "lookup example_fs [''data'', ''ws'', ''a b.txt''] = Some (File ''hi'')" by code_simp
  from delete_directory_recursive [OF a b] obtain fs' where
    r: "delete_path example_fs ''/data/ws/sub'' = (Json 200 JOk, fs')"
       "\<not> existsSync fs' ''/data/ws/sub''"
       "\<forall>q. lookup fs' (fs_path ''/data/ws/sub'' @ q) = None"
       "\<forall>q. \<not> prefix (fs_path ''/data/ws/sub'') q \<and> \<not> prefix q (fs_path ''/data/ws/sub'')
              \<longrightarrow> lookup fs' q = lookup example_fs q"
       "''sub'' \<notin> set (listed_names (list_files fs' ''/data/ws''))"
       "\<forall>ds fl. fs_node example_fs ''/data/ws'' = Some (Dir ds)
                 \<and> list_all proper_segment (map fst ds)
                 \<and> list_files example_fs ''/data/ws'' = Json 200 (JFiles fl)
              \<longrightarrow> list_files fs' ''/data/ws''
                    = Json 200 (JFiles (filter (\<lambda>f. fe_name f \<noteq> ''sub'') fl))"
    by blast
  from r(3) have g: "lookup fs' [''data'', ''ws'', ''sub'', ''deep'', ''y''] = None"
    using spec [OF r(3), of "[''deep'', ''y'']"] by (simp add: p)
  from r(4) have h: "lookup fs' [''data'', ''ws'', ''a b.txt''] = Some (File ''hi'')"
    using spec [OF r(4), of "[''data'', ''ws'', ''a b.txt'']"] k by (simp add: p)
  from r(6) c d e have
    "list_files fs' ''/data/ws'' = Json 200 (JFiles (filter (\<lambda>f. fe_name f \<noteq> ''sub'') ?fl))"
    by blast
  then have l: "list_files fs' ''/data/ws''
      = Json 200 (JFiles [\<lparr>fe_name = ''a b.txt'', fe_size = Some 2, fe_isDirectory = False\<rparr>])"
    by simp
  from a b e r(1,2,5) g h l show ?thesis by blast
qed

subsection \<open>Rejected paths\<close>

text \<open>
  C6, as stated, fails: the handler creates the workspace root before it compares any
  path. With the root \<^verbatim>\<open>/data/w2\<close> missing, the request for the path \<^verbatim>\<open>../../etc\<close> is
  answered 403, and afterwards the directory \<^verbatim>\<open>/data/w2\<close> exists.
\<close>

theorem rejection_creates_root_counterexample:
  "containment_check_fails ''/data/w2'' (simple_request ''GET'' ''/api/workspace'' (Some ''../../etc'') [])
   \<and> fst (handleWorkspaceHttpRequest ''/data/w2'' True example_fs
            (simple_request ''GET'' ''/api/workspace'' (Some ''../../etc'') []))
       = Json 403 (JError ''Forbidden'')
   \<and> \<not> existsSync example_fs ''/data/w2''
   \<and> existsSync (snd (handleWorkspaceHttpRequest ''/data/w2'' True example_fs
                         (simple_request ''GET'' ''/api/workspace'' (Some ''../../etc'') [])))
         ''/data/w2''"
  by code_simp

text \<open>
  C6, amended. For an authorized request under \<^verbatim>\<open>/api/workspace\<close> that fails the
  containment check, once the workspace root exists or has been created, the handler
  answers 403 \<^verbatim>\<open>Forbidden\<close> and does nothing else to the file system: when the root
  existed, the file system is unchanged; otherwise the only change is the creation of the
  root.
\<close>

theorem rejection_only_creates_root:
  assumes "startsWith (pathname req) ''/api/workspace''"
      and "ensure_root fs0 rootWorkspaceDir = Inr fs"
      and "containment_check_fails rootWorkspaceDir req"
  shows "handleWorkspaceHttpRequest rootWorkspaceDir True fs0 req
           = (Json 403 (JError ''Forbidden''), fs)
         \<and> (if existsSync fs0 rootWorkspaceDir then fs = fs0
            else mkdirSync_recursive fs0 rootWorkspaceDir = Inr fs)"
proof -
  have "handleWorkspaceHttpRequest rootWorkspaceDir True fs0 req
           = (Json 403 (JError ''Forbidden''), fs)"
    using assms
    by (auto simp: handleWorkspaceHttpRequest_def containment_check_fails_def Let_def
        file_operations_def read_text_def write_text_def split: option.splits if_splits)
  moreover have "if existsSync fs0 rootWorkspaceDir then fs = fs0
            else mkdirSync_recursive fs0 rootWorkspaceDir = Inr fs"
    using assms(2) by (auto simp: ensure_root_def split: if_splits)
  ultimately show ?thesis by blast
qed

theorem rejection_only_creates_root_witness:
  "startsWith (pathname (simple_request ''GET'' ''/api/workspace/..%2F..%2Fetc%2Fpasswd'' None [])) ''/api/workspace''
   \<and> ensure_root example_fs ''/data/ws'' = Inr example_fs
   \<and> containment_check_fails ''/data/ws'' (simple_request ''GET'' ''/api/workspace/..%2F..%2Fetc%2Fpasswd'' None [])
   \<and> handleWorkspaceHttpRequest ''/data/ws'' True example_fs
         (simple_request ''GET'' ''/api/workspace/..%2F..%2Fetc%2Fpasswd'' None [])
       = (Json 403 (JError ''Forbidden''), example_fs)"
proof -
  have a: "startsWith (pathname (simple_request ''GET'' ''/api/workspace/..%2F..%2Fetc%2Fpasswd'' None [])) ''/api/workspace''"
    by code_simp
  have b: "ensure_root example_fs ''/data/ws'' = Inr example_fs" by code_simp
  have c: "containment_check_fails ''/data/ws'' (simple_request ''GET'' ''/api/workspace/..%2F..%2Fetc%2Fpasswd'' None [])"
    by code_simp
  from rejection_only_creates_root [OF a b c] a b c show ?thesis by blast
qed

subsection \<open>Upload\<close>









text \<open>A file name with a NUL byte is another write that throws.\<close>

lemma upload_nul_name_is_uncaught:
  "upload example_fs ''/data/ws'' (Some ''multipart/form-data; boundary=X'')
     [multipart_body ''X'' (file_part_headers [CHR ''a'', CHR 0x00, CHR ''b'']) ''ab'']
   = (Uncaught ERR_INVALID_ARG_VALUE, example_fs)"
  by code_simp



text \<open>The part for \<^verbatim>\<open>report.txt\<close> and the pieces of the body.\<close>

lemma capture_report:
  "capture_name (''report.txt'' @ DQ @ rest) = Some ''report.txt''"
  by (simp add: capture_name_def DQ_def is_line_terminator_def CR_def LF_def)

lemma butlast_filename_attr: "butlast filename_attr = ''filename=''"
  by (simp add: filename_attr_def DQ_def)

text \<open>The one part of a body: its file name and its content are found whatever the content
  is.\<close>

lemma part_file_named:
  assumes headers: "headers = pre @ filename_attr @ ''report.txt'' @ DQ @ post"
      and first: "\<not> sublist filename_attr (pre @ ''filename='')"
      and blank: "\<not> sublist (CRLF @ CRLF) (CRLF @ headers @ CRLF)"
  shows "part_file (CRLF @ headers @ CRLF @ CRLF @ content @ CRLF)
           = Some (''report.txt'', content)"
proof -
  let ?P = "CRLF @ headers @ CRLF @ CRLF @ content @ CRLF"
  let ?rest = "''report.txt'' @ DQ @ post @ CRLF @ CRLF @ content @ CRLF"
  have P: "?P = (CRLF @ pre) @ filename_attr @ ?rest" by (simp add: headers)
  have "sublist filename_attr ?P" unfolding P by (rule sublist_appendI)
  then have inc: "includes_str ?P filename_attr"
    by (simp add: includes_str_def indexOf_None_iff)
  have nf: "\<not> prefix filename_attr (c # xs)" if "c = CR \<or> c = LF" for c xs
    using that by (auto simp: filename_attr_def CR_def LF_def)
  have "\<not> sublist filename_attr ((CRLF @ pre) @ butlast filename_attr)"
    using first nf by (simp add: CRLF_def butlast_filename_attr sublist_Cons_right CR_def LF_def)
  then have "match_filename ((CRLF @ pre) @ filename_attr @ ?rest) = Some ''report.txt''"
    using capture_report [of "post @ CRLF @ CRLF @ content @ CRLF"]
    by (intro match_filename_found) simp_all
  then have m: "match_filename ?P = Some ''report.txt''" by (simp only: P)
  have c4: "CRLF @ CRLF \<noteq> []" "last (CRLF @ CRLF) \<noteq> CR"
    by (simp_all add: CRLF_def CR_def)
  have "(CRLF @ headers) @ butlast (CRLF @ CRLF) = (CRLF @ headers @ CRLF) @ [CR]"
    by (simp add: CRLF_def CR_def)
  then have "\<not> sublist (CRLF @ CRLF) ((CRLF @ headers) @ butlast (CRLF @ CRLF))"
    using blank sublist_snoc_other [OF c4, of "CRLF @ headers @ CRLF"] by simp
  from indexOf_found [OF c4(1) this, of "content @ CRLF"]
  have i: "indexOf ?P (CRLF @ CRLF) = Some (length (CRLF @ headers))"
    by simp
  let ?A = "CRLF @ headers @ CRLF @ CRLF"
  have cs: "js_index (indexOf ?P (CRLF @ CRLF)) + 4 = int (length ?A)"
    by (simp add: i js_index_def length_CRLF)
  have "lastIndexOf ((?A @ content) @ CRLF) CRLF = Some (length (?A @ content))"
    by (rule lastIndexOf_append) (simp add: CRLF_def)
  then have ce: "js_index (lastIndexOf ?P CRLF) = int (length ?A) + int (length content)"
    by (simp add: js_index_def)
  have "slice (?A @ content @ CRLF) (int (length ?A)) (int (length ?A) + int (length content))
          = content"
    by (rule slice_middle)
  then have sl: "slice ?P (int (length ?A)) (int (length ?A) + int (length content)) = content"
    by simp
  show ?thesis
    by (simp only: part_file_def Let_def inc m cs ce sl if_True option.case)
qed

lemma delimiter_not_in_part:
  assumes cr: "CR \<notin> set boundary"
      and hdr: "\<not> sublist (''--'' @ boundary) headers"
      and content: "\<not> sublist (''--'' @ boundary) content"
  shows "\<not> sublist (''--'' @ boundary)
            ((CRLF @ headers @ CRLF @ CRLF @ content @ CRLF) @ butlast (''--'' @ boundary))"
proof
  define d where "d = ''--'' @ boundary"
  define bl where "bl = butlast d"
  assume "sublist (''--'' @ boundary)
            ((CRLF @ headers @ CRLF @ CRLF @ content @ CRLF) @ butlast (''--'' @ boundary))"
  then have s: "sublist d ((CRLF @ headers @ CRLF @ CRLF @ content @ CRLF) @ bl)"
    by (simp only: d_def bl_def)
  have dne: "d \<noteq> []" by (simp add: d_def)
  have crd: "CR \<notin> set d" using cr by (simp add: d_def CR_def)
  have nolf: "\<not> prefix d (LF # xs)" for xs by (simp add: d_def LF_def)
  have hdr': "\<not> sublist d headers" unfolding d_def by (rule hdr)
  have content': "\<not> sublist d content" unfolding d_def by (rule content)
  have short: "\<not> sublist d bl"
    unfolding bl_def by (rule sublist_shorter) (simp add: dne)
  have e: "(CRLF @ headers @ CRLF @ CRLF @ content @ CRLF) @ bl
           = CR # LF # (headers @ CR # LF # CR # LF # (content @ CR # LF # bl))"
    by (simp add: CRLF_def CR_def LF_def)
  from s have "sublist d (CR # LF # (headers @ CR # LF # CR # LF # (content @ CR # LF # bl)))"
    by (simp only: e)
  then have "sublist d (LF # (headers @ CR # LF # CR # LF # (content @ CR # LF # bl)))"
    by (rule sublist_skip_foreign [OF crd dne])
  then have "sublist d (headers @ CR # LF # CR # LF # (content @ CR # LF # bl))"
    by (rule sublist_skip_no_prefix [OF nolf])
  then have "sublist d (LF # CR # LF # (content @ CR # LF # bl))"
    by (rule sublist_after_foreign [OF crd hdr'])
  then have "sublist d (CR # LF # (content @ CR # LF # bl))"
    by (rule sublist_skip_no_prefix [OF nolf])
  then have "sublist d (LF # (content @ CR # LF # bl))"
    by (rule sublist_skip_foreign [OF crd dne])
  then have "sublist d (content @ CR # LF # bl)"
    by (rule sublist_skip_no_prefix [OF nolf])
  then have "sublist d (LF # bl)"
    by (rule sublist_after_foreign [OF crd content'])
  then have "sublist d bl"
    by (rule sublist_skip_no_prefix [OF nolf])
  with short show False by simp
qed

lemma body_split:
  assumes ne: "boundary \<noteq> []"
      and cr: "CR \<notin> set boundary"
      and hdr: "\<not> sublist (''--'' @ boundary) headers"
      and content: "\<not> sublist (''--'' @ boundary) content"
  shows "split_str (multipart_body boundary headers content) (''--'' @ boundary)
           = [[], CRLF @ headers @ CRLF @ CRLF @ content @ CRLF, ''--'' @ CRLF]"
proof -
  let ?d = "''--'' @ boundary"
  let ?P = "CRLF @ headers @ CRLF @ CRLF @ content @ CRLF"
  have d: "?d \<noteq> []" by simp
  have body: "multipart_body boundary headers content = [] @ ?d @ (?P @ ?d @ (''--'' @ CRLF))"
    by (simp add: multipart_body_def)
  have first: "\<not> sublist ?d ([] @ butlast ?d)"
    using sublist_shorter [of "butlast ?d" ?d] by simp
  have crd: "CR \<notin> set ?d" using cr by (simp add: CR_def)
  have "''--'' @ CRLF = ''--'' @ CR # [LF]" by (simp add: CRLF_def CR_def LF_def)
  moreover have "\<not> sublist ?d (''--'' @ CR # [LF])"
    using ne sublist_shorter [of "''--''" ?d] sublist_shorter [of "[LF]" ?d]
    by (simp only: sublist_foreign [OF crd]) simp
  ultimately have last: "\<not> sublist ?d (''--'' @ CRLF)" by simp
  have "split_str (multipart_body boundary headers content) ?d
          = split_go ?d 0 [] ([] @ ?d @ (?P @ ?d @ (''--'' @ CRLF)))"
    by (simp only: split_str_def body)
  also have "\<dots> = (rev [] @ []) # split_go ?d 0 [] (?P @ ?d @ (''--'' @ CRLF))"
    by (rule split_go_found [OF d first])
  also have "split_go ?d 0 [] (?P @ ?d @ (''--'' @ CRLF))
          = (rev [] @ ?P) # split_go ?d 0 [] (''--'' @ CRLF)"
    by (rule split_go_found [OF d delimiter_not_in_part [OF cr hdr content]])
  also have "split_go ?d 0 [] (''--'' @ CRLF) = [rev [] @ (''--'' @ CRLF)]"
    by (rule split_go_none [OF last])
  finally show ?thesis by simp
qed

lemma boundary_of_nonempty: "boundary_of ct = Some b \<Longrightarrow> b \<noteq> []"
  by (auto simp: boundary_of_def split: option.splits list.splits if_splits)

lemma latin1_report: "latin1_to_utf8 ''report.txt'' = ''report.txt''"
  by code_simp

lemma no_file_in_empty_part: "part_file [] = None"
  by code_simp

lemma no_file_in_closing_part: "part_file (''--'' @ CRLF) = None"
  by code_simp

lemma proper_report: "proper_segment ''report.txt''"
  by (simp add: proper_segment_def)

text \<open>
  C2, as stated, fails, in three ways. The body is split at every occurrence of \<^verbatim>\<open>--X\<close>,
  also inside the content: for the content \<^verbatim>\<open>a--Xb\<close> the upload answers 200 and leaves an
  empty file. The boundary is everything after \<^verbatim>\<open>boundary=\<close> in the header: with a
  parameter behind it the body is not split at all, and the file holds the content
  followed by the closing boundary line. A file name without quotes is not found: the
  upload answers 200 and writes no file.
\<close>

theorem upload_framing_counterexample:
  "fst (handleWorkspaceHttpRequest ''/data/ws'' True example_fs
          (upload_request ''multipart/form-data; boundary=X''
             [multipart_body ''X'' (file_part_headers ''report.txt'') ''a--Xb'']))
     = Json 200 JOk
   \<and> readFileSync
         (snd (handleWorkspaceHttpRequest ''/data/ws'' True example_fs
                 (upload_request ''multipart/form-data; boundary=X''
                    [multipart_body ''X'' (file_part_headers ''report.txt'') ''a--Xb''])))
         ''/data/ws/report.txt'' = Inr []
   \<and> fst (handleWorkspaceHttpRequest ''/data/ws'' True example_fs
            (upload_request ''multipart/form-data; boundary=X; charset=utf-8''
               [multipart_body ''X'' (file_part_headers ''report.txt'')
                  [CHR 0x00, CHR 0x01, CHR 0xFF]]))
       = Json 200 JOk
   \<and> readFileSync
         (snd (handleWorkspaceHttpRequest ''/data/ws'' True example_fs
                 (upload_request ''multipart/form-data; boundary=X; charset=utf-8''
                    [multipart_body ''X'' (file_part_headers ''report.txt'')
                       [CHR 0x00, CHR 0x01, CHR 0xFF]])))
         ''/data/ws/report.txt'' = Inr ([CHR 0x00, CHR 0x01, CHR 0xFF] @ CRLF @ ''--X--'')
   \<and> fst (handleWorkspaceHttpRequest ''/data/ws'' True example_fs
            (upload_request ''multipart/form-data; boundary=X''
               [multipart_body ''X'' unquoted_headers [CHR 0x00, CHR 0x01, CHR 0xFF]]))
       = Json 200 JOk
   \<and> \<not> existsSync
         (snd (handleWorkspaceHttpRequest ''/data/ws'' True example_fs
                 (upload_request ''multipart/form-data; boundary=X''
                    [multipart_body ''X'' unquoted_headers [CHR 0x00, CHR 0x01, CHR 0xFF]])))
         ''/data/ws/report.txt''"
  by code_simp

text \<open>
  C2, amended. Let \<open>X\<close> be what the handler takes for the boundary, the text after
  \<^verbatim>\<open>boundary=\<close> in the \<^verbatim>\<open>content-type\<close> header, and let it hold no carriage return. Let
  the body be one part whose header block has no empty line, does not contain \<^verbatim>\<open>--X\<close>,
  and carries, as its first \<^verbatim>\<open>filename="\<close>, the quoted file name \<^verbatim>\<open>report.txt\<close>; and let
  its content, of any bytes, not contain \<^verbatim>\<open>--X\<close>. When the target directory exists,
  \<^verbatim>\<open>report.txt\<close> is not a directory in it and the path of the file is one that the file
  system accepts, the upload answers 200 and the file \<^verbatim>\<open>report.txt\<close> in the target
  directory holds exactly the bytes of the content.
\<close>

theorem upload_preserves_bytes:
  assumes boundary: "boundary_of ct = Some boundary"
      and cr: "CR \<notin> set boundary"
      and headers: "headers = pre @ filename_attr @ ''report.txt'' @ DQ @ post"
      and first: "\<not> sublist filename_attr (pre @ ''filename='')"
      and blank: "\<not> sublist (CRLF @ CRLF) (CRLF @ headers @ CRLF)"
      and hdelim: "\<not> sublist (''--'' @ boundary) headers"
      and content: "\<not> sublist (''--'' @ boundary) content"
      and body: "concat data = multipart_body boundary headers content"
      and segs: "list_all proper_segment segs"
      and dir: "is_dir_at fs segs"
      and nodir: "\<not> is_dir_at fs (segs @ [''report.txt''])"
      and limits: "path_error (abs_path (segs @ [''report.txt''])) = None"
  shows "\<exists>fs'. upload fs (abs_path segs) ct data = (Json 200 JOk, fs')
           \<and> readFileSync fs' (abs_path (segs @ [''report.txt''])) = Inr content"
proof -
  let ?target = "abs_path (segs @ [''report.txt''])"
  let ?P = "CRLF @ headers @ CRLF @ CRLF @ content @ CRLF"
  have psegs: "list_all proper_segment (segs @ [''report.txt''])"
    using segs proper_report by simp
  from dir obtain es where es: "lookup fs segs = Some (Dir es)"
    by (auto simp: is_dir_at_def split: option.splits node.splits)
  from nodir have "\<And>ds. lookup fs (segs @ [''report.txt'']) \<noteq> Some (Dir ds)"
    by (auto simp: is_dir_at_def)
  from tree_write_child [OF es this, of content] obtain fs' where
    tw: "tree_write fs (segs @ [''report.txt'']) content = Inr fs'" and
    lk: "lookup fs' (segs @ [''report.txt'']) = Some (File content)" by blast
  have tne: "?target \<noteq> []" by (simp add: abs_path_def)
  have tl: "last ?target \<noteq> CHR ''/''" using psegs by (rule last_abs_path) simp
  have tp: "fs_path ?target = segs @ [''report.txt'']" using psegs by (rule fs_path_abs_path)
  have wr: "writeFileSync fs ?target content = Inr fs'"
    using tne tl tp tw limits by (simp add: writeFileSync_def)
  have pj: "path_join (abs_path segs) (latin1_to_utf8 ''report.txt'') = ?target"
    using path_join_child [OF segs proper_report] by (simp add: latin1_report)
  have parts: "split_str (concat data) (''--'' @ boundary) = [[], ?P, ''--'' @ CRLF]"
    using body_split [OF boundary_of_nonempty [OF boundary] cr hdelim content] body by simp
  have pf: "part_file ?P = Some (''report.txt'', content)"
    using headers first blank by (rule part_file_named)
  have "store_parts fs (abs_path segs) [[], ?P, ''--'' @ CRLF] = (None, fs')"
    by (simp add: no_file_in_empty_part pf no_file_in_closing_part [simplified] pj wr
        abs_path_child_startsWith Let_def)
  with parts boundary have "upload fs (abs_path segs) ct data = (Json 200 JOk, fs')"
    by (simp add: upload_def Let_def)
  moreover have "readFileSync fs' ?target = Inr content"
    using tne tl tp lk limits by (simp add: readFileSync_def fs_node_def)
  ultimately show ?thesis by blast
qed

theorem upload_preserves_bytes_witness:
  "boundary_of (Some ''multipart/form-data; boundary=X'') = Some ''X''
   \<and> CR \<notin> set ''X''
   \<and> file_part_headers ''report.txt''
       = (''Content-Disposition: form-data; name='' @ DQ @ ''files'' @ DQ @ ''; '')
           @ filename_attr @ ''report.txt'' @ DQ
           @ (CRLF @ ''Content-Type: application/octet-stream'')
   \<and> \<not> sublist filename_attr
         ((''Content-Disposition: form-data; name='' @ DQ @ ''files'' @ DQ @ ''; '')
            @ ''filename='')
   \<and> \<not> sublist (CRLF @ CRLF) (CRLF @ file_part_headers ''report.txt'' @ CRLF)
   \<and> \<not> sublist (''--'' @ ''X'') (file_part_headers ''report.txt'')
   \<and> \<not> sublist (''--'' @ ''X'') [CHR 0x00, CHR 0x01, CHR 0xFF]
   \<and> concat [multipart_body ''X'' (file_part_headers ''report.txt'')
                [CHR 0x00, CHR 0x01, CHR 0xFF]]
       = multipart_body ''X'' (file_part_headers ''report.txt'') [CHR 0x00, CHR 0x01, CHR 0xFF]
   \<and> list_all proper_segment [''data'', ''ws'']
   \<and> is_dir_at example_fs [''data'', ''ws'']
   \<and> \<not> is_dir_at example_fs ([''data'', ''ws''] @ [''report.txt''])
   \<and> path_error (abs_path ([''data'', ''ws''] @ [''report.txt''])) = None
   \<and> (\<exists>fs'. upload example_fs (abs_path [''data'', ''ws''])
                (Some ''multipart/form-data; boundary=X'')
                [multipart_body ''X'' (file_part_headers ''report.txt'')
                   [CHR 0x00, CHR 0x01, CHR 0xFF]]
              = (Json 200 JOk, fs')
            \<and> readFileSync fs' (abs_path ([''data'', ''ws''] @ [''report.txt'']))
                = Inr [CHR 0x00, CHR 0x01, CHR 0xFF])"
proof -
  let ?pre = "''Content-Disposition: form-data; name='' @ DQ @ ''files'' @ DQ @ ''; ''"
  let ?post = "CRLF @ ''Content-Type: application/octet-stream''"
  let ?bytes = "[CHR 0x00, CHR 0x01, CHR 0xFF]"
  have a: "boundary_of (Some ''multipart/form-data; boundary=X'') = Some ''X''" by code_simp
  have b: "CR \<notin> set ''X''" by (simp add: CR_def)
  have h: "file_part_headers ''report.txt'' = ?pre @ filename_attr @ ''report.txt'' @ DQ @ ?post"
    by (simp add: file_part_headers_def filename_attr_def)
  have i: "\<not> sublist filename_attr (?pre @ ''filename='')" by code_simp
  have j: "\<not> sublist (CRLF @ CRLF) (CRLF @ file_part_headers ''report.txt'' @ CRLF)"
    by code_simp
  have k: "\<not> sublist (''--'' @ ''X'') (file_part_headers ''report.txt'')" by code_simp
  have c: "\<not> sublist (''--'' @ ''X'') ?bytes" by code_simp
  have d: "concat [multipart_body ''X'' (file_part_headers ''report.txt'') ?bytes]
             = multipart_body ''X'' (file_part_headers ''report.txt'') ?bytes" by simp
  have e: "list_all proper_segment [''data'', ''ws'']" by (simp add: proper_segment_def)
  have f: "is_dir_at example_fs [''data'', ''ws'']" by code_simp
  have g: "\<not> is_dir_at example_fs ([''data'', ''ws''] @ [''report.txt''])" by code_simp
  have l: "path_error (abs_path ([''data'', ''ws''] @ [''report.txt''])) = None" by code_simp
  from upload_preserves_bytes [OF a b h i j k c d e f g l] a b h i j k c d e f g l
  show ?thesis by blast
qed

subsection \<open>Download\<close>

text \<open>What the Download branch answers: 404 exactly for a path that does not exist; for a
  file whose name the header can carry, its bytes with the attachment header.\<close>

lemma download_not_found_iff:
  "download fs filePath fileName = Text 404 ''Not Found'' \<longleftrightarrow> \<not> existsSync fs filePath"
  by (auto simp: download_def createReadStream_def readFileSync_def existsSync_def
      split: option.splits node.splits)

lemma download_file:
  "fs_node fs filePath = Some (File bytes) \<Longrightarrow>
   valid_header_value (''attachment; filename='' @ DQ @ fileName @ DQ) \<Longrightarrow>
   download fs filePath fileName
     = Stream [(''Content-Disposition'', ''attachment; filename='' @ DQ @ fileName @ DQ),
               (''Content-Type'', ''application/octet-stream'')] bytes"
  using fs_node_path_ok [of fs filePath "File bytes"]
  by (simp add: download_def createReadStream_def readFileSync_def existsSync_def)

subsection \<open>Requests that the handler does not treat as the specification says\<close>

text \<open>
  C1 (path containment). The check of the resolved directory is a comparison of strings:
  with the root \<^verbatim>\<open>/data/ws\<close>, the query path \<^verbatim>\<open>../ws-evil\<close> resolves to
  \<^verbatim>\<open>/data/ws-evil\<close>, which begins with the characters of the root and lies beside it
  (the segments of the root are no prefix of its segments). The request is not rejected: the handler answers 200 with the listing of that directory.
\<close>

theorem sibling_directory_is_listed:
  "path_join ''/data/ws'' ''../ws-evil'' = ''/data/ws-evil''
   \<and> startsWith ''/data/ws-evil'' ''/data/ws''
   \<and> \<not> prefix (fs_path ''/data/ws'') (fs_path ''/data/ws-evil'')
   \<and> handleWorkspaceHttpRequest ''/data/ws'' True example_fs
         (simple_request ''GET'' ''/api/workspace'' (Some ''../ws-evil'') [])
       = (Json 200 (JFiles [\<lparr>fe_name = ''secret.txt'', fe_size = Some 1,
                              fe_isDirectory = False\<rparr>]), example_fs)"
  by code_simp

text \<open>
  C3 (text round trip). The body of a Text Write is decoded chunk by chunk. When the two
  bytes of the character U+00E9 arrive in two chunks, each chunk decodes to U+FFFD: the
  write answers 200, and the Text Read that follows returns six bytes instead of the two
  that were sent. The same two bytes in one chunk are returned as they were sent.
\<close>

theorem split_character_is_replaced:
  "fst (handleWorkspaceHttpRequest ''/data/ws'' True example_fs
          (simple_request ''PUT'' ''/api/workspace/text/cafe.txt'' None [[CHR 0xC3], [CHR 0xA9]]))
     = Json 200 JOk
   \<and> fst (handleWorkspaceHttpRequest ''/data/ws'' True
            (snd (handleWorkspaceHttpRequest ''/data/ws'' True example_fs
                    (simple_request ''PUT'' ''/api/workspace/text/cafe.txt'' None
                       [[CHR 0xC3], [CHR 0xA9]])))
            (simple_request ''GET'' ''/api/workspace/text/cafe.txt'' None []))
     = Text 200 [CHR 0xEF, CHR 0xBF, CHR 0xBD, CHR 0xEF, CHR 0xBF, CHR 0xBD]
   \<and> fst (handleWorkspaceHttpRequest ''/data/ws'' True
            (snd (handleWorkspaceHttpRequest ''/data/ws'' True example_fs
                    (simple_request ''PUT'' ''/api/workspace/text/cafe.txt'' None
                       [[CHR 0xC3, CHR 0xA9]])))
            (simple_request ''GET'' ''/api/workspace/text/cafe.txt'' None []))
     = Text 200 [CHR 0xC3, CHR 0xA9]"
  by code_simp

text \<open>
  C4 (download of a directory). For a path that names a directory the Download branch finds
  that the path exists, sets the headers and opens a read stream on the directory; the
  stream fails with \<^verbatim>\<open>EISDIR\<close>, which nothing catches. The answer is not 404.
\<close>

theorem download_of_directory_is_uncaught:
  "existsSync example_fs ''/data/ws/sub''
   \<and> handleWorkspaceHttpRequest ''/data/ws'' True example_fs
         (simple_request ''GET'' ''/api/workspace/sub'' None [])
       = (Uncaught EISDIR, example_fs)"
  by code_simp

text \<open>
  C5 (error mapping of Text Write). When the target of a Text Write is a directory, the
  write fails with \<^verbatim>\<open>EISDIR\<close> in the listener of the \<^verbatim>\<open>end\<close> event; the exception
  is not caught and no response with status 500 is sent.
\<close>

theorem write_to_directory_is_uncaught:
  "handleWorkspaceHttpRequest ''/data/ws'' True example_fs
     (simple_request ''PUT'' ''/api/workspace/text/sub'' None [''new text''])
   = (Uncaught EISDIR, example_fs)"
  by code_simp

text \<open>
  C9 (percent-decoding). The Download branch addresses the decoded name: the request for
  \<^verbatim>\<open>a%20b.txt\<close> streams the file \<^verbatim>\<open>a b.txt\<close>. The text branches join the segment as
  it stands in the URL: the Text Read of \<^verbatim>\<open>text/a%20b.txt\<close> answers 404 although
  \<^verbatim>\<open>a b.txt\<close> exists, and the Text Write creates a file named \<^verbatim>\<open>a%20b.txt\<close> and
  leaves \<^verbatim>\<open>a b.txt\<close> as it was.
\<close>

theorem text_name_is_not_decoded:
  "handleWorkspaceHttpRequest ''/data/ws'' True example_fs
     (simple_request ''GET'' ''/api/workspace/a%20b.txt'' None [])
   = (Stream [(''Content-Disposition'', ''attachment; filename='' @ DQ @ ''a b.txt'' @ DQ),
              (''Content-Type'', ''application/octet-stream'')] ''hi'', example_fs)
   \<and> handleWorkspaceHttpRequest ''/data/ws'' True example_fs
         (simple_request ''GET'' ''/api/workspace/text/a%20b.txt'' None [])
       = (Text 404 ''Not Found'', example_fs)
   \<and> readFileSync
         (snd (handleWorkspaceHttpRequest ''/data/ws'' True example_fs
                 (simple_request ''PUT'' ''/api/workspace/text/a%20b.txt'' None [''new''])))
         ''/data/ws/a%20b.txt'' = Inr ''new''
   \<and> readFileSync
         (snd (handleWorkspaceHttpRequest ''/data/ws'' True example_fs
                 (simple_request ''PUT'' ''/api/workspace/text/a%20b.txt'' None [''new''])))
         ''/data/ws/a b.txt'' = Inr ''hi''"
  by code_simp

end
